theory Spec2Isabelle
  imports Main "HOL-Library.AList"
begin

section \<open>Data model of \<open>src/index.ts\<close>\<close>

text \<open>
  \<open>src/index.ts\<close> holds two revisions of the plugin, one after the other: the earlier
  registers its tools as \<open>browser_*\<close> and tags its envelopes with \<open>command\<close>, the
  later registers them as \<open>ab_*\<close> and tags its envelopes with \<open>action\<close>.
  \<open>getSession\<close>, \<open>uploadToR2\<close>, \<open>convertToGif\<close> and the cleanup service are the same
  in both. The model follows the later revision, and has the earlier \<open>browser_close\<close>
  beside \<open>ab_close\<close>.

  The plugin keeps one module-level registry \<open>sessions\<close> (a JavaScript \<open>Map\<close>), the
  module-level \<open>pluginConfig\<close> and \<open>s3Client\<close>, and talks to four collaborators that
  are not part of the repository: the browser engine (\<open>BrowserManager\<close>,
  \<open>executeCommand\<close>), \<open>ffmpeg\<close> through \<open>execSync\<close>, the S3 client and the file
  system. The model is a state record \<open>world\<close> holding the module state together with
  a log of every call made to a collaborator; what a collaborator answers during one
  call of a tool is an input, collected in the record \<open>env\<close>.

  A \<open>BrowserManager\<close> object is identified by the number of objects constructed
  before it. Every session object is created together with its own browser object, so
  the same number identifies the session object.
\<close>

type_synonym handle = nat

record R2Config =
  accountId :: string
  bucket :: string
  publicDomain :: "string option"

text \<open>\<open>interface PluginConfig\<close>; \<open>gif\<close> holds \<open>gif.enabled\<close> when \<open>gif\<close> is present.\<close>

record PluginConfig =
  r2 :: "R2Config option"
  headless :: "bool option"
  viewport :: "(int \<times> int) option"
  gif :: "bool option"
  maxConcurrent :: "int option"
  idleTimeoutMs :: "int option"

text \<open>\<open>interface SessionState\<close>.\<close>

record SessionState =
  browser :: handle
  lastActivity :: int
  recording :: bool
  recordingPath :: "string option"

text \<open>
  A command envelope is the object literal handed to \<open>executeCommand\<close>: its fields in
  the order they are written. The engine answers with a response object, of which
  the tools read \<open>data?.path\<close> and \<open>data?.frames\<close>; a command that fails is answered
  with \<open>success = false\<close>. \<open>Rejected\<close> stands for a promise that rejects instead of
  answering, which no tool handles: it would leave the tool as a rejection.
\<close>

type_synonym envelope = "(string \<times> string) list"

record response =
  success :: bool
  data_path :: "string option"
  data_frames :: "int option"

datatype reply = Rejected | Resolved response

text \<open>
  Errors a tool can reject with. Only the first is thrown by the plugin itself
  (\<open>Max concurrent sessions (n) reached\<close>); the others stand for whatever a collaborator
  threw.
\<close>

datatype error =
    MaxSessionsReached int
  | LaunchFailed
  | CommandRejected
  | ReadFailed
  | SendFailed
  | FfmpegFailed
  | CloseFailed

text \<open>The object a tool serialises with \<open>JSON.stringify\<close> into its text content.\<close>

datatype payload =
    ErrorPayload string
  | ResultPayload response
  | RecordingPayload bool string
  | StopPayload "string option" "string option" "int option" "string option"
  | ClosedPayload bool

text \<open>The arguments of one \<open>browser.launch\<close> call, with the name it was made for.\<close>

record launch_call =
  for_session :: string
  on_browser :: handle
  with_headless :: bool
  with_viewport :: "int \<times> int"

record world =
  sessions :: "(string \<times> SessionState) list"
  pluginConfig :: PluginConfig
  s3Client :: bool
  tempDir :: string
  constructed :: nat
  launched :: "launch_call list"
  dispatched :: "(envelope \<times> handle) list"
  closed :: "handle list"
  converted :: "(string \<times> string) list"
  uploaded :: "(string option \<times> string \<times> string) list"
  sent :: "(string \<times> string \<times> string) list"
  console :: "string list"
  intervals :: "int list"

text \<open>
  What the outside world does during one call: the readings of \<open>Date.now()\<close> at the
  places the code takes them, whether \<open>browser.launch\<close> resolves, the reply of
  \<open>executeCommand\<close>, whether \<open>execSync\<close>, \<open>readFileSync\<close> and \<open>s3Client.send\<close> return,
  whether \<open>browser.close\<close> of a given browser resolves, and node's \<open>path.join\<close>.
\<close>

record env =
  created_at :: int
  touched_at :: int
  label_at :: int
  id_at :: int
  launch_ok :: bool
  engine_reply :: reply
  ffmpeg_ok :: bool
  read_ok :: bool
  send_ok :: bool
  close_ok :: "handle \<Rightarrow> bool"
  join :: "string \<Rightarrow> string \<Rightarrow> string"

section \<open>JavaScript operators used by the code\<close>

text \<open>\<open>x ?? d\<close>.\<close>

definition nullish :: "'a option \<Rightarrow> 'a \<Rightarrow> 'a" where
  "nullish x d = (case x of None \<Rightarrow> d | Some v \<Rightarrow> v)"

text \<open>Truthiness of a possibly undefined string: undefined and the empty string are falsy.\<close>

definition truthy :: "string option \<Rightarrow> bool" where
  "truthy x = (case x of None \<Rightarrow> False | Some s \<Rightarrow> s \<noteq> [])"

text \<open>\<open>a || b\<close> on possibly undefined strings, and \<open>a || "literal"\<close>.\<close>

definition js_or :: "string option \<Rightarrow> string option \<Rightarrow> string option" where
  "js_or a b = (if truthy a then a else b)"

definition or_literal :: "string option \<Rightarrow> string \<Rightarrow> string" where
  "or_literal a d = (case a of None \<Rightarrow> d | Some s \<Rightarrow> if s \<noteq> [] then s else d)"

text \<open>\<open>Number.prototype.toString\<close> on an integer: its decimal digits.\<close>

function digits :: "int \<Rightarrow> string" where
  "digits n = (if n < 10 then [char_of (48 + n)]
               else digits (n div 10) @ [char_of (48 + n mod 10)])"
  by pat_completeness auto
termination
  by (relation "measure nat") auto

declare digits.simps [simp del]

definition toString :: "int \<Rightarrow> string" where
  "toString i = (if i < 0 then CHR ''-'' # digits (- i) else digits i)"

text \<open>\<open>s.replace(pat, rep)\<close> with a string pattern: the first occurrence only.\<close>

fun replace :: "string \<Rightarrow> string \<Rightarrow> string \<Rightarrow> string" where
  "replace pat rep [] = (if pat = [] then rep else [])"
| "replace pat rep (c # cs) =
     (if take (length pat) (c # cs) = pat then rep @ drop (length pat) (c # cs)
      else c # replace pat rep cs)"

text \<open>\<open>s.split("/").pop()\<close>: what follows the last slash.\<close>

definition split_pop :: "string \<Rightarrow> string" where
  "split_pop s = rev (takeWhile (\<lambda>c. c \<noteq> CHR ''/'') (rev s))"

section \<open>The collaborators\<close>

text \<open>
  Each call is logged in the world; its outcome is read from \<open>env\<close>. A result is the
  pair of what the call returned or threw and the world after it: a throw leaves the
  effects made so far in place.
\<close>

definition executeCommand :: "envelope \<Rightarrow> handle \<Rightarrow> env \<Rightarrow> world \<Rightarrow> (error + response) \<times> world" where
  "executeCommand cmd b e w =
     ((case engine_reply e of Rejected \<Rightarrow> Inl CommandRejected | Resolved r \<Rightarrow> Inr r),
      w\<lparr>dispatched := dispatched w @ [(cmd, b)]\<rparr>)"

definition BrowserManager_close :: "handle \<Rightarrow> env \<Rightarrow> world \<Rightarrow> (error + unit) \<times> world" where
  "BrowserManager_close b e w =
     ((if close_ok e b then Inr () else Inl CloseFailed),
      w\<lparr>closed := closed w @ [b]\<rparr>)"

text \<open>\<open>promise.catch(() => {})\<close>: the rejection is dropped, the effects stay.\<close>

definition catch_ignore :: "(error + unit) \<times> world \<Rightarrow> world" where
  "catch_ignore r = snd r"

text \<open>\<open>convertToGif\<close>: one \<open>execSync\<close> of ffmpeg, which throws on a non-zero exit.\<close>

definition convertToGif :: "string \<Rightarrow> string \<Rightarrow> env \<Rightarrow> world \<Rightarrow> (error + unit) \<times> world" where
  "convertToGif inputPath outputPath e w =
     ((if ffmpeg_ok e then Inr () else Inl FfmpegFailed),
      w\<lparr>converted := converted w @ [(inputPath, outputPath)]\<rparr>)"

text \<open>\<open>uploadToR2\<close>. \<open>readFileSync\<close> of an undefined path throws.\<close>

definition uploadToR2 :: "string option \<Rightarrow> string \<Rightarrow> string \<Rightarrow> env \<Rightarrow> world \<Rightarrow> (error + string option) \<times> world" where
  "uploadToR2 localPath remoteName contentType e w =
     (let w1 = w\<lparr>uploaded := uploaded w @ [(localPath, remoteName, contentType)]\<rparr> in
      case (if s3Client w then r2 (pluginConfig w) else None) of
        None \<Rightarrow> (Inr None, w1)
      | Some cfg \<Rightarrow>
          if localPath = None \<or> \<not> read_ok e then (Inl ReadFailed, w1)
          else
            let key = ''agent-browser/'' @ remoteName;
                w2 = w1\<lparr>sent := sent w1 @ [(bucket cfg, key, contentType)]\<rparr>
            in if \<not> send_ok e then (Inl SendFailed, w2)
               else if truthy (publicDomain cfg)
                 then (Inr (Some (''https://'' @ nullish (publicDomain cfg) [] @ ''/'' @ key)), w2)
                 else (Inr (Some (''https://'' @ bucket cfg @ ''.'' @ accountId cfg @ ''.r2.dev/'' @ key)), w2))"

section \<open>The session registry\<close>

text \<open>
  \<open>sessions\<close> is a \<open>Map\<close>: \<open>get\<close> is \<open>map_of\<close>, \<open>set\<close> overwrites in place or appends
  (\<open>AList.update\<close>), \<open>delete\<close> is \<open>AList.delete\<close>, \<open>size\<close> is the length of the entry
  list, whose keys are distinct. An assignment to a field of the session object held
  under a name is \<open>AList.map_entry\<close>.
\<close>

definition assign :: "string \<Rightarrow> (SessionState \<Rightarrow> SessionState) \<Rightarrow> world \<Rightarrow> world" where
  "assign name f w = w\<lparr>sessions := AList.map_entry name f (sessions w)\<rparr>"

text \<open>
  \<open>getSession\<close> has one suspension point, \<open>await browser.launch(...)\<close>. The part before
  it runs without interruption: it either finishes (the name is present, or the limit
  is reached) or has constructed a browser, started its launch and now waits.
\<close>

datatype pending = Finished SessionState | Launching handle

definition getSession_enter :: "string \<Rightarrow> PluginConfig \<Rightarrow> env \<Rightarrow> world \<Rightarrow> (error + pending) \<times> world" where
  "getSession_enter sessionName config e w =
     (case map_of (sessions w) sessionName of
        Some session \<Rightarrow>
          (Inr (Finished (session\<lparr>lastActivity := touched_at e\<rparr>)),
           assign sessionName (\<lambda>s. s\<lparr>lastActivity := touched_at e\<rparr>) w)
      | None \<Rightarrow>
          if int (length (sessions w)) \<ge> nullish (maxConcurrent config) 3
          then (Inl (MaxSessionsReached (nullish (maxConcurrent config) 3)), w)
          else
            (Inr (Launching (constructed w)),
             w\<lparr>constructed := Suc (constructed w),
               launched := launched w @
                 [\<lparr>for_session = sessionName, on_browser = constructed w,
                   with_headless = nullish (headless config) True,
                   with_viewport = nullish (viewport config) (1280, 720)\<rparr>]\<rparr>))"

text \<open>The part after the suspension point, run when the launch has settled.\<close>

definition getSession_resume :: "string \<Rightarrow> handle \<Rightarrow> env \<Rightarrow> world \<Rightarrow> (error + SessionState) \<times> world" where
  "getSession_resume sessionName b e w =
     (if \<not> launch_ok e then (Inl LaunchFailed, w)
      else
        let session = \<lparr>browser = b, lastActivity = created_at e,
                       recording = False, recordingPath = None\<rparr>;
            w1 = w\<lparr>sessions := AList.update sessionName session (sessions w)\<rparr>
        in (Inr (session\<lparr>lastActivity := touched_at e\<rparr>),
            assign sessionName (\<lambda>s. s\<lparr>lastActivity := touched_at e\<rparr>) w1))"

text \<open>A call that nothing interleaves with: both parts, one after the other.\<close>

definition getSession :: "string \<Rightarrow> PluginConfig \<Rightarrow> env \<Rightarrow> world \<Rightarrow> (error + SessionState) \<times> world" where
  "getSession sessionName config e w =
     (case getSession_enter sessionName config e w of
        (Inl err, w1) \<Rightarrow> (Inl err, w1)
      | (Inr (Finished session), w1) \<Rightarrow> (Inr session, w1)
      | (Inr (Launching b), w1) \<Rightarrow> getSession_resume sessionName b e w1)"

section \<open>The tools\<close>

text \<open>
  The \<open>params\<close> object of a call, with the fields the modelled tools read. A tool's
  \<open>execute\<close> returns the payload it serialises, or rejects. Calls are modelled one at
  a time: between the start and the end of one \<open>execute\<close> no other call touches the
  registry, so the session object the call holds is the entry under its name.
\<close>

record params =
  session :: string
  label :: "string option"
  url :: string
  waitUntil :: "string option"

text \<open>\<open>ab_open\<close>, the shape of every tool that only routes one command.\<close>

definition ab_open :: "params \<Rightarrow> env \<Rightarrow> world \<Rightarrow> (error + payload) \<times> world" where
  "ab_open ps e w =
     (case getSession (session ps) (pluginConfig w) e w of
        (Inl err, w1) \<Rightarrow> (Inl err, w1)
      | (Inr s, w1) \<Rightarrow>
          (case executeCommand
                  [(''id'', toString (id_at e)), (''action'', ''navigate''),
                   (''url'', url ps), (''waitUntil'', nullish (waitUntil ps) ''load'')]
                  (browser s) e w1 of
             (Inl err, w2) \<Rightarrow> (Inl err, w2)
           | (Inr result, w2) \<Rightarrow> (Inr (ResultPayload result), w2)))"

definition ab_record_start :: "params \<Rightarrow> env \<Rightarrow> world \<Rightarrow> (error + payload) \<times> world" where
  "ab_record_start ps e w =
     (case getSession (session ps) (pluginConfig w) e w of
        (Inl err, w1) \<Rightarrow> (Inl err, w1)
      | (Inr s, w1) \<Rightarrow>
          if recording s then (Inr (ErrorPayload ''Already recording''), w1)
          else
            let lbl = or_literal (label ps) (''recording-'' @ toString (label_at e));
                filename = session ps @ ''-'' @ lbl @ ''.webm'';
                localPath = join e (tempDir w1) filename
            in (case executeCommand
                       [(''id'', toString (id_at e)), (''action'', ''recording_start''),
                        (''path'', localPath)]
                       (browser s) e w1 of
                  (Inl err, w2) \<Rightarrow> (Inl err, w2)
                | (Inr result, w2) \<Rightarrow>
                    (Inr (RecordingPayload True lbl),
                     assign (session ps)
                       (\<lambda>s. s\<lparr>recording := True, recordingPath := Some localPath\<rparr>) w2)))"

text \<open>
  The markdown of \<open>ab_record_stop\<close>. The video link's text starts with the eight bytes
  the source file holds between the bracket and the word \<open>Recording\<close>.
\<close>

definition markdown :: "string option \<Rightarrow> string \<Rightarrow> string option" where
  "markdown remoteUrl contentType =
     (if truthy remoteUrl
      then (if contentType = ''image/gif''
            then Some (''![recording]('' @ nullish remoteUrl [] @ '')'')
            else Some (''['' @ [CHR 0xC3, CHR 0xB0, CHR 0xC5, CHR 0xB8,
                                 CHR 0xC5, CHR 0xBD, CHR 0xC2, CHR 0xAC]
                        @ '' Recording]('' @ nullish remoteUrl [] @ '')''))
      else None)"

text \<open>
  The block \<open>if (pluginConfig.gif?.enabled && finalPath) { try ... catch ... }\<close>: it
  yields the final path and the content type.
\<close>

definition gif_step :: "string option \<Rightarrow> env \<Rightarrow> world \<Rightarrow> (string option \<times> string) \<times> world" where
  "gif_step finalPath e w =
     (case finalPath of
        None \<Rightarrow> ((finalPath, ''video/webm''), w)
      | Some p \<Rightarrow>
          if gif (pluginConfig w) = Some True \<and> p \<noteq> []
          then (let gifPath = replace ''.webm'' ''.gif'' p in
                case convertToGif p gifPath e w of
                  (Inr u, w1) \<Rightarrow> ((Some gifPath, ''image/gif''), w1)
                | (Inl err, w1) \<Rightarrow>
                    ((finalPath, ''video/webm''),
                     w1\<lparr>console := console w1 @ [''[agent-browser] GIF conversion failed:'']\<rparr>))
          else ((finalPath, ''video/webm''), w))"

definition ab_record_stop :: "params \<Rightarrow> env \<Rightarrow> world \<Rightarrow> (error + payload) \<times> world" where
  "ab_record_stop ps e w =
     (case getSession (session ps) (pluginConfig w) e w of
        (Inl err, w1) \<Rightarrow> (Inl err, w1)
      | (Inr s, w1) \<Rightarrow>
          if \<not> recording s then (Inr (ErrorPayload ''Not recording''), w1)
          else
            (case executeCommand
                    [(''id'', toString (id_at e)), (''action'', ''recording_stop'')]
                    (browser s) e w1 of
               (Inl err, w2) \<Rightarrow> (Inl err, w2)
             | (Inr result, w2) \<Rightarrow>
                 let w3 = assign (session ps) (\<lambda>s. s\<lparr>recording := False\<rparr>) w2 in
                 (case gif_step (js_or (data_path result) (recordingPath s)) e w3 of
                    ((finalPath, contentType), w4) \<Rightarrow>
                      let filename = or_literal (map_option split_pop finalPath) ''video.webm'' in
                      (case uploadToR2 finalPath filename contentType e w4 of
                         (Inl err, w5) \<Rightarrow> (Inl err, w5)
                       | (Inr remoteUrl, w5) \<Rightarrow>
                           (Inr (StopPayload finalPath remoteUrl (data_frames result)
                                   (markdown remoteUrl contentType)), w5)))))"

text \<open>
  \<open>ab_close\<close>, and \<open>browser_close\<close> of the earlier revision of the file, which differs
  only in the name of the envelope's tag field.
\<close>

definition close_with :: "string \<Rightarrow> params \<Rightarrow> env \<Rightarrow> world \<Rightarrow> (error + payload) \<times> world" where
  "close_with tag ps e w =
     (case map_of (sessions w) (session ps) of
        None \<Rightarrow> (Inr (ErrorPayload ''Session not found''), w)
      | Some s \<Rightarrow>
          (case executeCommand [(''id'', toString (id_at e)), (tag, ''close'')] (browser s) e w of
             (Inl err, w1) \<Rightarrow> (Inl err, w1)
           | (Inr result, w1) \<Rightarrow>
               (Inr (ClosedPayload True),
                w1\<lparr>sessions := AList.delete (session ps) (sessions w1)\<rparr>)))"

definition ab_close :: "params \<Rightarrow> env \<Rightarrow> world \<Rightarrow> (error + payload) \<times> world" where
  "ab_close = close_with ''action''"

definition browser_close :: "params \<Rightarrow> env \<Rightarrow> world \<Rightarrow> (error + payload) \<times> world" where
  "browser_close = close_with ''command''"

section \<open>The cleanup service\<close>

text \<open>
  \<open>start\<close> installs the reaper with \<open>setInterval(..., 60000)\<close> and drops the timer it
  gets back; \<open>intervals\<close> lists the periods of the timers that are installed and not
  cleared. The reaper's callback walks the \<open>Map\<close> in insertion order; it deletes only
  the entry it is visiting, so every entry present at the start of the walk is visited
  once. \<open>browser.close()\<close> is started, not awaited, and its rejection dropped.
\<close>

definition service_start :: "world \<Rightarrow> world" where
  "service_start w = w\<lparr>intervals := intervals w @ [60000]\<rparr>"

fun reap_loop :: "int \<Rightarrow> int \<Rightarrow> env \<Rightarrow> (string \<times> SessionState) list \<Rightarrow> world \<Rightarrow> world" where
  "reap_loop now timeout e [] w = w"
| "reap_loop now timeout e ((name, s) # rest) w =
     reap_loop now timeout e rest
       (if now - lastActivity s > timeout
        then (let w1 = w\<lparr>console := console w @ [''[agent-browser] Closing idle session: '' @ name]\<rparr>;
                  w2 = catch_ignore (BrowserManager_close (browser s) e w1)
              in w2\<lparr>sessions := AList.delete name (sessions w2)\<rparr>)
        else w)"

definition reaper_tick :: "int \<Rightarrow> env \<Rightarrow> world \<Rightarrow> world" where
  "reaper_tick now e w =
     reap_loop now (nullish (idleTimeoutMs (pluginConfig w)) 300000) e (sessions w) w"

text \<open>\<open>stop\<close>: close every session's browser, awaiting each, then \<open>sessions.clear()\<close>.\<close>

fun stop_loop :: "env \<Rightarrow> (string \<times> SessionState) list \<Rightarrow> world \<Rightarrow> world" where
  "stop_loop e [] w = w"
| "stop_loop e ((name, s) # rest) w =
     stop_loop e rest
       (catch_ignore (BrowserManager_close (browser s) e
          (w\<lparr>console := console w @ [''[agent-browser] Closing session on shutdown: '' @ name]\<rparr>)))"

definition service_stop :: "env \<Rightarrow> world \<Rightarrow> world" where
  "service_stop e w = (stop_loop e (sessions w) w)\<lparr>sessions := []\<rparr>"

section \<open>Runs\<close>

text \<open>
  The state the module starts in, with what \<open>register\<close> stores, and the operations of
  the plugin as steps on the world. \<open>Tick\<close> is one firing of the reaper's timer,
  which can only happen while a timer is installed.
\<close>

definition initial :: "PluginConfig \<Rightarrow> bool \<Rightarrow> string \<Rightarrow> world" where
  "initial config s3 tmp =
     \<lparr>sessions = [], pluginConfig = config, s3Client = s3, tempDir = tmp,
      constructed = 0, launched = [], dispatched = [], closed = [], converted = [],
      uploaded = [], sent = [], console = [], intervals = []\<rparr>"

datatype operation =
    Open params
  | RecordStart params
  | RecordStop params
  | Close params
  | Tick int
  | ServiceStart
  | ServiceStop

fun step :: "operation \<Rightarrow> env \<Rightarrow> world \<Rightarrow> world" where
  "step (Open ps) e w = snd (ab_open ps e w)"
| "step (RecordStart ps) e w = snd (ab_record_start ps e w)"
| "step (RecordStop ps) e w = snd (ab_record_stop ps e w)"
| "step (Close ps) e w = snd (ab_close ps e w)"
| "step (Tick now) e w = (if intervals w = [] then w else reaper_tick now e w)"
| "step ServiceStart e w = service_start w"
| "step ServiceStop e w = service_stop e w"

fun run :: "(operation \<times> env) list \<Rightarrow> world \<Rightarrow> world" where
  "run [] w = w"
| "run ((ope, e) # rest) w = run rest (step ope e w)"

text \<open>
  Two calls of \<open>getSession\<close> that overlap: the second is started before the launch
  of the first has settled, as \<open>Promise.all([getSession(n, c), getSession(n, c)])\<close>
  starts them. The first runs up to its \<open>await\<close>, the second runs up to its own, then
  each continues when its own launch settles; which launch settles first is not
  fixed by the code, so it is an input. A call that finished in its first part has
  nothing left to run.
\<close>

datatype settle_order = FirstSettlesFirst | SecondSettlesFirst

definition resume_pending :: "string \<Rightarrow> (error + pending) \<Rightarrow> env \<Rightarrow> world \<Rightarrow> (error + SessionState) \<times> world" where
  "resume_pending sessionName r e w =
     (case r of
        Inl err \<Rightarrow> (Inl err, w)
      | Inr (Finished s) \<Rightarrow> (Inr s, w)
      | Inr (Launching b) \<Rightarrow> getSession_resume sessionName b e w)"

definition getSession_overlapped ::
  "string \<Rightarrow> PluginConfig \<Rightarrow> env \<Rightarrow> env \<Rightarrow> settle_order \<Rightarrow> world \<Rightarrow> ((error + SessionState) \<times> (error + SessionState)) \<times> world" where
  "getSession_overlapped sessionName config e1 e2 ord w =
     (case getSession_enter sessionName config e1 w of (p1, w1) \<Rightarrow>
      case getSession_enter sessionName config e2 w1 of (p2, w2) \<Rightarrow>
      (case ord of
         FirstSettlesFirst \<Rightarrow>
           (case resume_pending sessionName p1 e1 w2 of (res1, w3) \<Rightarrow>
            case resume_pending sessionName p2 e2 w3 of (res2, w4) \<Rightarrow> ((res1, res2), w4))
       | SecondSettlesFirst \<Rightarrow>
           (case resume_pending sessionName p2 e2 w2 of (res2, w3) \<Rightarrow>
            case resume_pending sessionName p1 e1 w3 of (res1, w4) \<Rightarrow> ((res1, res2), w4))))"

text \<open>The second call started only when the first has returned.\<close>

definition getSession_twice ::
  "string \<Rightarrow> PluginConfig \<Rightarrow> env \<Rightarrow> env \<Rightarrow> world \<Rightarrow> ((error + SessionState) \<times> (error + SessionState)) \<times> world" where
  "getSession_twice sessionName config e1 e2 w =
     (case getSession sessionName config e1 w of (res1, w1) \<Rightarrow>
      case getSession sessionName config e2 w1 of (res2, w2) \<Rightarrow> ((res1, res2), w2))"

text \<open>
  The session a call that launched browser \<open>b\<close> holds when it returns, and what such a
  call returns once its launch has settled.
\<close>

definition own_session :: "handle \<Rightarrow> env \<Rightarrow> SessionState" where
  "own_session b e =
     \<lparr>browser = b, lastActivity = touched_at e, recording = False, recordingPath = None\<rparr>"

definition settled :: "handle \<Rightarrow> env \<Rightarrow> error + SessionState" where
  "settled b e = (if launch_ok e then Inr (own_session b e) else Inl LaunchFailed)"

text \<open>Counting in the logs.\<close>

definition launches_for :: "string \<Rightarrow> world \<Rightarrow> nat" where
  "launches_for name w = length (filter (\<lambda>c. for_session c = name) (launched w))"

definition dispatches_of :: "string \<Rightarrow> world \<Rightarrow> nat" where
  "dispatches_of act w =
     length (filter (\<lambda>d. map_of (fst d) ''action'' = Some act) (dispatched w))"

text \<open>An entry whose idle time at \<open>now\<close> strictly exceeds the configured timeout.\<close>

definition idle :: "int \<Rightarrow> world \<Rightarrow> string \<times> SessionState \<Rightarrow> bool" where
  "idle now w entry =
     (now - lastActivity (snd entry)
        > (case idleTimeoutMs (pluginConfig w) of None \<Rightarrow> 300000 | Some t \<Rightarrow> t))"

text \<open>Resolving one name again and again, each call started when the last has returned.\<close>

fun resolves :: "string \<Rightarrow> PluginConfig \<Rightarrow> env list \<Rightarrow> world \<Rightarrow> world" where
  "resolves sessionName config [] w = w"
| "resolves sessionName config (e # es) w =
     resolves sessionName config es (snd (getSession sessionName config e w))"

text \<open>Every session that is recording has a recording path.\<close>

definition path_when_recording :: "world \<Rightarrow> bool" where
  "path_when_recording w =
     list_all (\<lambda>entry. recording (snd entry) \<longrightarrow> recordingPath (snd entry) \<noteq> None) (sessions w)"

section \<open>Concrete inputs\<close>

text \<open>
  A configuration with every option left out, so that all defaults apply, and one
  with storage and GIF conversion switched on; an environment in which every
  collaborator succeeds, and variations of it.
\<close>

definition default_config :: PluginConfig where
  "default_config =
     \<lparr>r2 = None, headless = None, viewport = None, gif = None,
      maxConcurrent = None, idleTimeoutMs = None\<rparr>"

definition gif_config :: PluginConfig where
  "gif_config =
     default_config\<lparr>gif := Some True,
       r2 := Some \<lparr>accountId = ''acct'', bucket = ''shots'', publicDomain = None\<rparr>\<rparr>"

definition calm :: env where
  "calm =
     \<lparr>created_at = 1000, touched_at = 1000, label_at = 1001, id_at = 1002,
      launch_ok = True,
      engine_reply = Resolved \<lparr>success = True, data_path = None, data_frames = Some 100\<rparr>,
      ffmpeg_ok = True, read_ok = True, send_ok = True,
      close_ok = (\<lambda>b. True), join = (\<lambda>dir file. dir @ ''/'' @ file)\<rparr>"

definition later :: "int \<Rightarrow> env" where
  "later t = calm\<lparr>created_at := t, touched_at := t, label_at := t, id_at := t\<rparr>"

definition on_session :: "string \<Rightarrow> params" where
  "on_session name = \<lparr>session = name, label = Some ''demo'', url = ''https://example.com'', waitUntil = None\<rparr>"

definition fresh_world :: world where
  "fresh_world = initial default_config False ''/tmp/agent-browser-plugin''"

definition gif_world :: world where
  "gif_world = initial gif_config True ''/tmp/agent-browser-plugin''"

text \<open>The world after \<open>ab_open\<close> has been called once for each of the names, in order.\<close>

definition opened :: "string list \<Rightarrow> world" where
  "opened names = run (map (\<lambda>name. (Open (on_session name), calm)) names) fresh_world"

text \<open>The world in which session \<open>a\<close> has been created by \<open>ab_record_start\<close> and records.\<close>

definition recording_world :: world where
  "recording_world = run [(RecordStart (on_session ''a''), calm)] fresh_world"

text \<open>
  Two sessions, \<open>a\<close> last used at 1000 and \<open>b\<close> last used at 350000; an engine that
  answers every command with \<open>success = false\<close>; browsers whose \<open>close\<close> always
  rejects.
\<close>

definition two_sessions :: world where
  "two_sessions =
     run [(Open (on_session ''a''), calm), (Open (on_session ''b''), later 350000)] fresh_world"


definition failing_close :: env where
  "failing_close = calm\<lparr>close_ok := (\<lambda>b. False)\<rparr>"

text \<open>
  Session \<open>a\<close> recording under the configuration with storage and GIF conversion; an
  environment in which ffmpeg fails, and one in which the recorded file is missing, so
  that ffmpeg and \<open>readFileSync\<close> both fail.
\<close>

definition recording_gif_world :: world where
  "recording_gif_world = run [(RecordStart (on_session ''a''), calm)] gif_world"

definition ffmpeg_failing :: env where
  "ffmpeg_failing = calm\<lparr>ffmpeg_ok := False\<rparr>"

definition file_missing :: env where
  "file_missing = calm\<lparr>ffmpeg_ok := False, read_ok := False\<rparr>"

section \<open>Facts about \<open>getSession\<close>\<close>

text \<open>The four ways a call of \<open>getSession\<close> that nothing interleaves with can go.\<close>

lemma getSession_present:
  assumes "map_of (sessions w) n = Some s"
  shows "getSession n c e w =
           (Inr (s\<lparr>lastActivity := touched_at e\<rparr>),
            assign n (\<lambda>s. s\<lparr>lastActivity := touched_at e\<rparr>) w)"
  using assms by (simp add: getSession_def getSession_enter_def)

lemma getSession_full:
  assumes "map_of (sessions w) n = None"
    and "int (length (sessions w)) \<ge> nullish (maxConcurrent c) 3"
  shows "getSession n c e w = (Inl (MaxSessionsReached (nullish (maxConcurrent c) 3)), w)"
  using assms by (simp add: getSession_def getSession_enter_def)

lemma getSession_launch_failed:
  assumes "map_of (sessions w) n = None"
    and "int (length (sessions w)) < nullish (maxConcurrent c) 3"
    and "\<not> launch_ok e"
  shows "getSession n c e w =
           (Inl LaunchFailed,
            w\<lparr>constructed := Suc (constructed w),
              launched := launched w @
                [\<lparr>for_session = n, on_browser = constructed w,
                  with_headless = nullish (headless c) True,
                  with_viewport = nullish (viewport c) (1280, 720)\<rparr>]\<rparr>)"
  using assms by (simp add: getSession_def getSession_enter_def getSession_resume_def)

lemma map_entry_update_same:
  "AList.map_entry k f (AList.update k v xs) = AList.update k (f v) xs"
  by (induction xs) auto

lemma getSession_created:
  assumes "map_of (sessions w) n = None"
    and "int (length (sessions w)) < nullish (maxConcurrent c) 3"
    and "launch_ok e"
  shows "getSession n c e w =
           (Inr \<lparr>browser = constructed w, lastActivity = touched_at e,
                  recording = False, recordingPath = None\<rparr>,
            w\<lparr>constructed := Suc (constructed w),
              launched := launched w @
                [\<lparr>for_session = n, on_browser = constructed w,
                  with_headless = nullish (headless c) True,
                  with_viewport = nullish (viewport c) (1280, 720)\<rparr>],
              sessions := AList.update n
                 \<lparr>browser = constructed w, lastActivity = touched_at e,
                  recording = False, recordingPath = None\<rparr> (sessions w)\<rparr>)"
  using assms
  by (simp add: getSession_def getSession_enter_def getSession_resume_def assign_def
                map_entry_update_same)

lemma getSession_cases:
  obtains (present) s where "map_of (sessions w) n = Some s"
  | (full) "map_of (sessions w) n = None"
      "int (length (sessions w)) \<ge> nullish (maxConcurrent c) 3"
  | (failed) "map_of (sessions w) n = None"
      "int (length (sessions w)) < nullish (maxConcurrent c) 3" "\<not> launch_ok e"
  | (created) "map_of (sessions w) n = None"
      "int (length (sessions w)) < nullish (maxConcurrent c) 3" "launch_ok e"
  by (cases "map_of (sessions w) n") fastforce+

text \<open>\<open>getSession\<close> touches the registry and the launch log, nothing else.\<close>

lemma getSession_frame:
  "dispatched (snd (getSession n c e w)) = dispatched w"
  "closed (snd (getSession n c e w)) = closed w"
  "pluginConfig (snd (getSession n c e w)) = pluginConfig w"
  "s3Client (snd (getSession n c e w)) = s3Client w"
  "tempDir (snd (getSession n c e w)) = tempDir w"
  "console (snd (getSession n c e w)) = console w"
  "uploaded (snd (getSession n c e w)) = uploaded w"
  "converted (snd (getSession n c e w)) = converted w"
  "sent (snd (getSession n c e w)) = sent w"
  "intervals (snd (getSession n c e w)) = intervals w"
  by (cases rule: getSession_cases[where w=w and n=n and c=c and e=e];
      simp add: getSession_present getSession_full getSession_launch_failed
                getSession_created assign_def)+

lemma getSession_returns_entry:
  assumes "getSession n c e w = (Inr s, w1)"
  shows "map_of (sessions w1) n = Some s"
  using assms
  by (cases rule: getSession_cases[where w=w and n=n and c=c and e=e])
     (auto simp: getSession_present getSession_full getSession_launch_failed
                 getSession_created assign_def map_of_map_entry update_conv')

lemma getSession_error_keeps_sessions:
  assumes "getSession n c e w = (Inl err, w1)"
  shows "sessions w1 = sessions w"
  using assms
  by (cases rule: getSession_cases[where w=w and n=n and c=c and e=e])
     (auto simp: getSession_present getSession_full getSession_launch_failed
                 getSession_created)

lemma resolves_present:
  assumes "map_of (sessions w) n = Some s"
  shows "launched (resolves n c es w) = launched w
       \<and> constructed (resolves n c es w) = constructed w"
  using assms
proof (induction es arbitrary: w s)
  case Nil
  then show ?case by simp
next
  case (Cons e es)
  let ?w1 = "snd (getSession n c e w)"
  have w1: "?w1 = assign n (\<lambda>s. s\<lparr>lastActivity := touched_at e\<rparr>) w"
    using Cons.prems by (simp add: getSession_present)
  have "map_of (sessions ?w1) n = Some (s\<lparr>lastActivity := touched_at e\<rparr>)"
    using Cons.prems by (simp add: w1 assign_def map_of_map_entry)
  from Cons.IH[OF this] show ?case by (simp add: w1 assign_def)
qed

section \<open>Admission at the limit\<close>

text \<open>
  C1. When the name is not in the registry and the registry already holds
  \<open>maxConcurrent\<close> sessions or more (3 when the option is left out), \<open>getSession\<close>
  throws the limit error and the world is what it was: no browser is constructed or
  launched, the registry and its size are unchanged.
\<close>

theorem getSession_rejects_at_limit:
  assumes "map_of (sessions w) sessionName = None"
    and "int (length (sessions w)) \<ge> (case maxConcurrent config of None \<Rightarrow> 3 | Some m \<Rightarrow> m)"
  shows "getSession sessionName config e w =
           (Inl (MaxSessionsReached (case maxConcurrent config of None \<Rightarrow> 3 | Some m \<Rightarrow> m)), w)"
  using assms by (simp add: getSession_full nullish_def)

theorem getSession_rejects_at_limit_witness:
  "map_of (sessions (opened [''a'', ''b'', ''c''])) ''d'' = None
   \<and> int (length (sessions (opened [''a'', ''b'', ''c''])))
        \<ge> (case maxConcurrent default_config of None \<Rightarrow> 3 | Some m \<Rightarrow> m)
   \<and> getSession ''d'' default_config calm (opened [''a'', ''b'', ''c'']) =
        (Inl (MaxSessionsReached 3), opened [''a'', ''b'', ''c''])"
proof -
  have absent: "map_of (sessions (opened [''a'', ''b'', ''c''])) ''d'' = None"
    by code_simp
  have full: "int (length (sessions (opened [''a'', ''b'', ''c''])))
                \<ge> (case maxConcurrent default_config of None \<Rightarrow> 3 | Some m \<Rightarrow> m)"
    by code_simp
  have "(case maxConcurrent default_config of None \<Rightarrow> 3 | Some m \<Rightarrow> m) = (3::int)"
    by (simp add: default_config_def)
  with getSession_rejects_at_limit[OF absent full, of calm] absent full
  show ?thesis by simp
qed

section \<open>Reuse of a live session\<close>

text \<open>
  C2. When the name is in the registry, \<open>getSession\<close> returns the session held under
  it with \<open>lastActivity\<close> set to the clock reading it takes, and that is the entry the
  registry then holds. However often the name is resolved again, no browser is
  constructed and no launch is made: the launch log, and with it the number of
  launches made for the name, stays what it was.
\<close>

theorem getSession_reuses_live_session:
  assumes "map_of (sessions w) sessionName = Some s"
  shows "fst (getSession sessionName config e w) = Inr (s\<lparr>lastActivity := touched_at e\<rparr>)
       \<and> map_of (sessions (snd (getSession sessionName config e w))) sessionName
            = Some (s\<lparr>lastActivity := touched_at e\<rparr>)
       \<and> launched (resolves sessionName config es w) = launched w
       \<and> constructed (resolves sessionName config es w) = constructed w
       \<and> launches_for sessionName (resolves sessionName config es w)
            = launches_for sessionName w"
  using assms resolves_present[OF assms, of config es]
  by (simp add: getSession_present assign_def map_of_map_entry launches_for_def)

theorem getSession_reuses_live_session_witness:
  "map_of (sessions (opened [''a''])) ''a''
     = Some \<lparr>browser = 0, lastActivity = 1000, recording = False, recordingPath = None\<rparr>
   \<and> fst (getSession ''a'' default_config (later 2000) (opened [''a'']))
        = Inr \<lparr>browser = 0, lastActivity = 2000, recording = False, recordingPath = None\<rparr>
   \<and> launches_for ''a'' (resolves ''a'' default_config [later 2000, later 3000] (opened [''a''])) = 1"
proof -
  have live: "map_of (sessions (opened [''a''])) ''a''
     = Some \<lparr>browser = 0, lastActivity = 1000, recording = False, recordingPath = None\<rparr>"
    by code_simp
  have once: "launches_for ''a'' (opened [''a'']) = 1"
    by code_simp
  have "touched_at (later 2000) = 2000"
    by (simp add: later_def)
  with getSession_reuses_live_session[OF live, of default_config "later 2000"
         "[later 2000, later 3000]"] live once
  show ?thesis by simp
qed

section \<open>Closing a name that is not live\<close>

text \<open>
  C7. \<open>ab_close\<close> (and \<open>browser_close\<close> of the earlier revision) looks the name up
  first. When the registry has no entry for it, the call returns the payload
  \<open>{error: "Session not found"}\<close> and the world is what it was: nothing is dispatched,
  no browser is closed, the registry is unchanged.
\<close>

theorem close_of_unknown_session:
  assumes "map_of (sessions w) (session ps) = None"
  shows "ab_close ps e w = (Inr (ErrorPayload ''Session not found''), w)
       \<and> browser_close ps e w = (Inr (ErrorPayload ''Session not found''), w)"
  using assms by (simp add: ab_close_def browser_close_def close_with_def)

theorem close_of_unknown_session_witness:
  "map_of (sessions (opened [''a''])) (session (on_session ''nonexistent'')) = None
   \<and> ab_close (on_session ''nonexistent'') calm (opened [''a''])
        = (Inr (ErrorPayload ''Session not found''), opened [''a''])
   \<and> browser_close (on_session ''nonexistent'') calm (opened [''a''])
        = (Inr (ErrorPayload ''Session not found''), opened [''a''])"
proof -
  have absent: "map_of (sessions (opened [''a''])) (session (on_session ''nonexistent'')) = None"
    by code_simp
  from close_of_unknown_session[OF absent, of calm] absent
  show ?thesis by simp
qed

section \<open>The recording guards\<close>

lemma gif_step_frame:
  assumes "gif_step fp e w = (x, w')"
  shows "sessions w' = sessions w" "dispatched w' = dispatched w"
    "pluginConfig w' = pluginConfig w" "s3Client w' = s3Client w"
    "launched w' = launched w" "closed w' = closed w" "uploaded w' = uploaded w"
  using assms
  by (auto simp: gif_step_def convertToGif_def Let_def split: option.splits if_splits)

lemma uploadToR2_frame:
  assumes "uploadToR2 lp rn ct e w = (x, w')"
  shows "sessions w' = sessions w" "dispatched w' = dispatched w"
    "launched w' = launched w" "closed w' = closed w" "console w' = console w"
    "uploaded w' = uploaded w @ [(lp, rn, ct)]"
    "converted w' = converted w" "pluginConfig w' = pluginConfig w"
  using assms
  by (auto simp: uploadToR2_def Let_def split: option.splits if_splits)

lemma record_start_when_recording:
  assumes "map_of (sessions w) (session ps) = Some s" "recording s"
  shows "ab_record_start ps e w =
    (Inr (ErrorPayload ''Already recording''),
     assign (session ps) (\<lambda>s. s\<lparr>lastActivity := touched_at e\<rparr>) w)"
  using assms by (simp add: ab_record_start_def getSession_present)

lemma record_stop_when_idle:
  assumes "map_of (sessions w) (session ps) = Some s" "\<not> recording s"
  shows "ab_record_stop ps e w =
    (Inr (ErrorPayload ''Not recording''),
     assign (session ps) (\<lambda>s. s\<lparr>lastActivity := touched_at e\<rparr>) w)"
  using assms by (simp add: ab_record_stop_def getSession_present)

lemma record_start_success:
  assumes "fst (ab_record_start ps e w) = Inr (RecordingPayload True lbl)"
  shows "\<exists>s lp. map_of (sessions (snd (ab_record_start ps e w))) (session ps) = Some s \<and> recording s
     \<and> recordingPath s = Some lp
     \<and> dispatched (snd (ab_record_start ps e w)) = dispatched w @
          [([(''id'', toString (id_at e)), (''action'', ''recording_start''), (''path'', lp)], browser s)]"
proof (cases "getSession (session ps) (pluginConfig w) e w")
  case (Pair r w1)
  have d1: "dispatched w1 = dispatched w"
    using getSession_frame(1)[of "session ps" "pluginConfig w" e w] Pair by simp
  show ?thesis
  proof (cases r)
    case (Inl err)
    with Pair assms show ?thesis by (simp add: ab_record_start_def)
  next
    case (Inr s)
    with Pair have entry: "map_of (sessions w1) (session ps) = Some s"
      by (simp add: getSession_returns_entry)
    show ?thesis
    proof (cases "engine_reply e")
      case Rejected
      with Pair Inr assms show ?thesis
        by (simp add: ab_record_start_def executeCommand_def Let_def split: if_splits)
    next
      case (Resolved res)
      with Pair Inr assms entry d1 show ?thesis
        by (simp add: ab_record_start_def executeCommand_def Let_def assign_def
                      map_of_map_entry split: if_splits)
    qed
  qed
qed

lemma record_stop_dispatch:
  assumes "map_of (sessions w) (session ps) = Some s" "recording s"
  shows "dispatched (snd (ab_record_stop ps e w)) = dispatched w @
           [([(''id'', toString (id_at e)), (''action'', ''recording_stop'')], browser s)]"
proof (cases "engine_reply e")
  case Rejected
  with assms show ?thesis
    by (simp add: ab_record_stop_def getSession_present executeCommand_def assign_def)
next
  case (Resolved res)
  let ?w2 = "(assign (session ps) (\<lambda>s. s\<lparr>lastActivity := touched_at e\<rparr>) w)
               \<lparr>dispatched := dispatched w @
                  [([(''id'', toString (id_at e)), (''action'', ''recording_stop'')], browser s)]\<rparr>"
  let ?w3 = "assign (session ps) (\<lambda>s. s\<lparr>recording := False\<rparr>) ?w2"
  obtain fp ct w4 where g: "gif_step (js_or (data_path res) (recordingPath s)) e ?w3 = ((fp, ct), w4)"
    by (metis surj_pair)
  obtain x w5 where u: "uploadToR2 fp (or_literal (map_option split_pop fp) ''video.webm'') ct e w4 = (x, w5)"
    by (metis surj_pair)
  have "dispatched w5 = dispatched ?w3"
    using gif_step_frame(2)[OF g] uploadToR2_frame(2)[OF u] by simp
  moreover have "snd (ab_record_stop ps e w) = w5"
    using assms Resolved g u
    by (cases x) (simp_all add: ab_record_stop_def getSession_present executeCommand_def assign_def Let_def)
  ultimately show ?thesis by (simp add: assign_def)
qed

lemma dispatches_of_append:
  "dispatched w' = dispatched w @ [(cmd, b)] \<Longrightarrow>
   dispatches_of act w' = dispatches_of act w + (if map_of cmd ''action'' = Some act then 1 else 0)"
  by (simp add: dispatches_of_def)

text \<open>
  C3. For a session that is recording, \<open>ab_record_start\<close> returns the payload
  \<open>{error: "Already recording"}\<close> and dispatches nothing; for a session that is not
  recording, \<open>ab_record_stop\<close> returns \<open>{error: "Not recording"}\<close> and dispatches
  nothing; and when a start has gone through, the start and the stop that follows it
  together dispatch one \<open>recording_start\<close> and one \<open>recording_stop\<close> envelope,
  whatever the engine, ffmpeg and the upload do during the stop.
\<close>

theorem recording_guards:
  "(map_of (sessions w) (session ps) = Some s \<and> recording s \<longrightarrow>
      fst (ab_record_start ps e w) = Inr (ErrorPayload ''Already recording'')
      \<and> dispatched (snd (ab_record_start ps e w)) = dispatched w)
   \<and> (map_of (sessions w) (session ps) = Some s \<and> \<not> recording s \<longrightarrow>
      fst (ab_record_stop ps e w) = Inr (ErrorPayload ''Not recording'')
      \<and> dispatched (snd (ab_record_stop ps e w)) = dispatched w)
   \<and> (fst (ab_record_start ps e w) = Inr (RecordingPayload True lbl) \<longrightarrow>
      dispatches_of ''recording_start'' (snd (ab_record_stop ps e' (snd (ab_record_start ps e w))))
        = dispatches_of ''recording_start'' w + 1
      \<and> dispatches_of ''recording_stop'' (snd (ab_record_stop ps e' (snd (ab_record_start ps e w))))
        = dispatches_of ''recording_stop'' w + 1)"
proof (intro conjI impI)
  assume "map_of (sessions w) (session ps) = Some s \<and> recording s"
  then show "fst (ab_record_start ps e w) = Inr (ErrorPayload ''Already recording'')"
    and "dispatched (snd (ab_record_start ps e w)) = dispatched w"
    by (simp_all add: record_start_when_recording assign_def)
next
  assume "map_of (sessions w) (session ps) = Some s \<and> \<not> recording s"
  then show "fst (ab_record_stop ps e w) = Inr (ErrorPayload ''Not recording'')"
    and "dispatched (snd (ab_record_stop ps e w)) = dispatched w"
    by (simp_all add: record_stop_when_idle assign_def)
next
  assume started: "fst (ab_record_start ps e w) = Inr (RecordingPayload True lbl)"
  let ?w1 = "snd (ab_record_start ps e w)"
  from record_start_success[OF started] obtain s1 lp where
    live: "map_of (sessions ?w1) (session ps) = Some s1" and rec: "recording s1"
    and d1: "dispatched ?w1 = dispatched w @
          [([(''id'', toString (id_at e)), (''action'', ''recording_start''), (''path'', lp)], browser s1)]"
    by blast
  note d2 = record_stop_dispatch[OF live rec, of e']
  show "dispatches_of ''recording_start'' (snd (ab_record_stop ps e' ?w1))
        = dispatches_of ''recording_start'' w + 1"
    by (simp add: dispatches_of_append[OF d2] dispatches_of_append[OF d1])
  show "dispatches_of ''recording_stop'' (snd (ab_record_stop ps e' ?w1))
        = dispatches_of ''recording_stop'' w + 1"
    by (simp add: dispatches_of_append[OF d2] dispatches_of_append[OF d1])
qed

theorem recording_guards_witness:
  "map_of (sessions recording_world) (session (on_session ''a''))
     = Some \<lparr>browser = 0, lastActivity = 1000, recording = True,
             recordingPath = Some ''/tmp/agent-browser-plugin/a-demo.webm''\<rparr>
   \<and> fst (ab_record_start (on_session ''a'') calm recording_world)
        = Inr (ErrorPayload ''Already recording'')
   \<and> dispatched (snd (ab_record_start (on_session ''a'') calm recording_world))
        = dispatched recording_world
   \<and> map_of (sessions (opened [''a''])) (session (on_session ''a''))
        = Some \<lparr>browser = 0, lastActivity = 1000, recording = False, recordingPath = None\<rparr>
   \<and> fst (ab_record_stop (on_session ''a'') calm (opened [''a'']))
        = Inr (ErrorPayload ''Not recording'')
   \<and> dispatched (snd (ab_record_stop (on_session ''a'') calm (opened [''a''])))
        = dispatched (opened [''a''])
   \<and> fst (ab_record_start (on_session ''a'') calm fresh_world) = Inr (RecordingPayload True ''demo'')
   \<and> dispatches_of ''recording_start''
        (snd (ab_record_stop (on_session ''a'') calm
           (snd (ab_record_start (on_session ''a'') calm fresh_world)))) = 1
   \<and> dispatches_of ''recording_stop''
        (snd (ab_record_stop (on_session ''a'') calm
           (snd (ab_record_start (on_session ''a'') calm fresh_world)))) = 1"
proof -
  have rec: "map_of (sessions recording_world) (session (on_session ''a''))
     = Some \<lparr>browser = 0, lastActivity = 1000, recording = True,
             recordingPath = Some ''/tmp/agent-browser-plugin/a-demo.webm''\<rparr>"
    by code_simp
  have idl: "map_of (sessions (opened [''a''])) (session (on_session ''a''))
        = Some \<lparr>browser = 0, lastActivity = 1000, recording = False, recordingPath = None\<rparr>"
    by code_simp
  have started: "fst (ab_record_start (on_session ''a'') calm fresh_world)
        = Inr (RecordingPayload True ''demo'')"
    by code_simp
  have none: "dispatches_of ''recording_start'' fresh_world = 0"
    "dispatches_of ''recording_stop'' fresh_world = 0"
    by code_simp+
  from recording_guards[where w = recording_world and ps = "on_session ''a''" and e = calm
         and s = "\<lparr>browser = 0, lastActivity = 1000, recording = True,
             recordingPath = Some ''/tmp/agent-browser-plugin/a-demo.webm''\<rparr>"] rec
  have one: "fst (ab_record_start (on_session ''a'') calm recording_world)
        = Inr (ErrorPayload ''Already recording'')
      \<and> dispatched (snd (ab_record_start (on_session ''a'') calm recording_world))
        = dispatched recording_world"
    by simp
  from recording_guards[where w = "opened [''a'']" and ps = "on_session ''a''" and e = calm
         and s = "\<lparr>browser = 0, lastActivity = 1000, recording = False, recordingPath = None\<rparr>"] idl
  have two: "fst (ab_record_stop (on_session ''a'') calm (opened [''a'']))
        = Inr (ErrorPayload ''Not recording'')
      \<and> dispatched (snd (ab_record_stop (on_session ''a'') calm (opened [''a''])))
        = dispatched (opened [''a''])"
    by simp
  from recording_guards[where w = fresh_world and ps = "on_session ''a''" and e = calm
         and e' = calm and lbl = "''demo''"] started none
  have three: "dispatches_of ''recording_start''
        (snd (ab_record_stop (on_session ''a'') calm
           (snd (ab_record_start (on_session ''a'') calm fresh_world)))) = 1
     \<and> dispatches_of ''recording_stop''
        (snd (ab_record_stop (on_session ''a'') calm
           (snd (ab_record_start (on_session ''a'') calm fresh_world)))) = 1"
    by simp
  from rec idl started one two three show ?thesis by blast
qed

section \<open>Closing a live session\<close>






section \<open>The reaper\<close>

lemma reap_loop_sessions:
  "sessions (reap_loop now t e xs w) =
     filter (\<lambda>entry. fst entry \<notin> fst ` set (filter (\<lambda>x. now - lastActivity (snd x) > t) xs)) (sessions w)"
proof (induction xs arbitrary: w)
  case Nil
  then show ?case by simp
next
  case (Cons x xs)
  obtain name s where x: "x = (name, s)" by (cases x)
  show ?case
    by (auto simp: x Cons.IH BrowserManager_close_def catch_ignore_def Let_def AList.delete_eq
             intro!: filter_cong)
qed

lemma reap_loop_closed:
  "closed (reap_loop now t e xs w) =
     closed w @ map (\<lambda>x. browser (snd x)) (filter (\<lambda>x. now - lastActivity (snd x) > t) xs)"
proof (induction xs arbitrary: w)
  case Nil
  then show ?case by simp
next
  case (Cons x xs)
  obtain name s where x: "x = (name, s)" by (cases x)
  show ?case
    by (simp add: x Cons.IH BrowserManager_close_def catch_ignore_def Let_def)
qed

lemma reap_loop_frame:
  "dispatched (reap_loop now t e xs w) = dispatched w
   \<and> launched (reap_loop now t e xs w) = launched w
   \<and> constructed (reap_loop now t e xs w) = constructed w
   \<and> pluginConfig (reap_loop now t e xs w) = pluginConfig w"
  by (induction xs arbitrary: w)
     (auto simp: BrowserManager_close_def catch_ignore_def Let_def)

lemma distinct_keys_filter:
  assumes "distinct (map fst xs)"
  shows "filter (\<lambda>entry. fst entry \<notin> fst ` set (filter P xs)) xs = filter (\<lambda>entry. \<not> P entry) xs"
proof (rule filter_cong[OF refl])
  fix x assume x: "x \<in> set xs"
  have "fst x \<in> fst ` set (filter P xs) \<longleftrightarrow> P x"
  proof
    assume "fst x \<in> fst ` set (filter P xs)"
    then obtain y where y: "y \<in> set xs" "P y" "fst y = fst x" by auto
    with assms x have "y = x" by (metis eq_key_imp_eq_value prod.collapse)
    with y show "P x" by simp
  next
    assume "P x" with x show "fst x \<in> fst ` set (filter P xs)" by auto
  qed
  then show "(fst x \<notin> fst ` set (filter P xs)) = (\<not> P x)" by simp
qed

text \<open>
  C6. One firing of the reaper at time \<open>now\<close>, on a registry whose keys are distinct
  as those of a \<open>Map\<close> are (\<open>reachable_keys_distinct\<close> below shows it of every
  registry that can arise): the entries left are exactly those whose idle time does
  not exceed the timeout (\<open>idleTimeoutMs\<close>, or 300000), each as it was and in the same
  order; \<open>browser.close()\<close> is called once for each entry removed and for no other;
  nothing is dispatched or launched.
\<close>

theorem reaper_tick_removes_exactly_idle:
  assumes "distinct (map fst (sessions w))"
  shows "sessions (reaper_tick now e w) = filter (\<lambda>entry. \<not> idle now w entry) (sessions w)
       \<and> closed (reaper_tick now e w)
           = closed w @ map (\<lambda>entry. browser (snd entry)) (filter (idle now w) (sessions w))
       \<and> dispatched (reaper_tick now e w) = dispatched w
       \<and> launched (reaper_tick now e w) = launched w"
proof -
  have idle: "(\<lambda>x. now - lastActivity (snd x) > nullish (idleTimeoutMs (pluginConfig w)) 300000)
                = idle now w"
    by (rule ext) (simp add: idle_def nullish_def)
  have "sessions (reaper_tick now e w)
          = filter (\<lambda>entry. fst entry \<notin> fst ` set (filter (idle now w) (sessions w))) (sessions w)"
    unfolding reaper_tick_def reap_loop_sessions idle ..
  also have "\<dots> = filter (\<lambda>entry. \<not> idle now w entry) (sessions w)"
    by (rule distinct_keys_filter[OF assms])
  finally have kept: "sessions (reaper_tick now e w)
          = filter (\<lambda>entry. \<not> idle now w entry) (sessions w)" .
  have torn: "closed (reaper_tick now e w)
           = closed w @ map (\<lambda>entry. browser (snd entry)) (filter (idle now w) (sessions w))"
    unfolding reaper_tick_def reap_loop_closed idle ..
  have rest: "dispatched (reaper_tick now e w) = dispatched w"
    "launched (reaper_tick now e w) = launched w"
    unfolding reaper_tick_def by (simp_all add: reap_loop_frame)
  from kept torn rest show ?thesis by blast
qed

theorem reaper_tick_removes_exactly_idle_witness:
  "distinct (map fst (sessions two_sessions))
   \<and> sessions (reaper_tick 400000 calm two_sessions)
        = [(''b'', \<lparr>browser = 1, lastActivity = 350000, recording = False, recordingPath = None\<rparr>)]
   \<and> closed (reaper_tick 400000 calm two_sessions) = [0]"
proof -
  have keys: "distinct (map fst (sessions two_sessions))"
    by code_simp
  have kept: "filter (\<lambda>entry. \<not> idle 400000 two_sessions entry) (sessions two_sessions)
        = [(''b'', \<lparr>browser = 1, lastActivity = 350000, recording = False, recordingPath = None\<rparr>)]"
    by code_simp
  have torn: "closed two_sessions
        @ map (\<lambda>entry. browser (snd entry)) (filter (idle 400000 two_sessions) (sessions two_sessions))
        = [0]"
    by code_simp
  from reaper_tick_removes_exactly_idle[OF keys, of 400000 calm] keys kept torn
  show ?thesis by simp
qed

section \<open>Shutdown\<close>

lemma stop_loop_closed:
  "closed (stop_loop e xs w) = closed w @ map (\<lambda>x. browser (snd x)) xs"
proof (induction xs arbitrary: w)
  case Nil
  then show ?case by simp
next
  case (Cons x xs)
  obtain name s where x: "x = (name, s)" by (cases x)
  show ?case by (simp add: x Cons.IH BrowserManager_close_def catch_ignore_def)
qed

lemma stop_loop_intervals:
  "intervals (stop_loop e xs w) = intervals w"
proof (induction xs arbitrary: w)
  case Nil
  then show ?case by simp
next
  case (Cons x xs)
  obtain name s where x: "x = (name, s)" by (cases x)
  show ?case by (simp add: x Cons.IH BrowserManager_close_def catch_ignore_def)
qed

lemma stop_loop_config:
  "pluginConfig (stop_loop e xs w) = pluginConfig w"
proof (induction xs arbitrary: w)
  case Nil
  then show ?case by simp
next
  case (Cons x xs)
  obtain name s where x: "x = (name, s)" by (cases x)
  show ?case by (simp add: x Cons.IH BrowserManager_close_def catch_ignore_def)
qed

text \<open>
  C9, as the code has it. \<open>stop\<close> calls \<open>close\<close> on the browser of every live session,
  in order and whether or not the calls before it rejected, and leaves the registry
  empty. It does not touch the timers: the reaper installed by \<open>start\<close> stays
  installed.
\<close>

theorem stop_drains_registry:
  "sessions (service_stop e w) = []
   \<and> closed (service_stop e w) = closed w @ map (\<lambda>entry. browser (snd entry)) (sessions w)
   \<and> intervals (service_stop e w) = intervals w"
  by (simp add: service_stop_def stop_loop_closed stop_loop_intervals)

theorem stop_drains_registry_witness:
  "sessions (service_stop failing_close two_sessions) = []
   \<and> closed (service_stop failing_close two_sessions) = [0, 1]
   \<and> intervals (service_stop failing_close (service_start two_sessions)) = [60000]"
proof -
  have torn: "closed two_sessions @ map (\<lambda>entry. browser (snd entry)) (sessions two_sessions) = [0, 1]"
    by code_simp
  have timers: "intervals (service_start two_sessions) = [60000]"
    by code_simp
  from stop_drains_registry[of failing_close two_sessions]
       stop_drains_registry[of failing_close "service_start two_sessions"] torn timers
  show ?thesis by simp
qed

text \<open>
  Against C9 as stated: after \<open>start\<close> and \<open>stop\<close> the reaper's timer is still installed,
  and a session opened afterwards is reaped by its next firing.
\<close>

theorem stop_leaves_reaper_installed:
  "intervals (run [(ServiceStart, calm), (ServiceStop, calm)] fresh_world) = [60000]
   \<and> sessions (run [(ServiceStart, calm), (ServiceStop, calm), (Open (on_session ''a''), calm)] fresh_world)
       = [(''a'', \<lparr>browser = 0, lastActivity = 1000, recording = False, recordingPath = None\<rparr>)]
   \<and> sessions (run [(ServiceStart, calm), (ServiceStop, calm), (Open (on_session ''a''), calm),
                     (Tick 400000, calm)] fresh_world) = []
   \<and> closed (run [(ServiceStart, calm), (ServiceStop, calm), (Open (on_session ''a''), calm),
                     (Tick 400000, calm)] fresh_world) = [0]"
  by code_simp

section \<open>Overlapping and sequential resolves\<close>

text \<open>The second call started when the first has returned its session.\<close>

lemma second_resolve_reuses:
  assumes "map_of (sessions w) n = None" and "fst (getSession n c e1 w) = Inr s1"
  shows "launches_for n (snd (getSession_twice n c e1 e2 w)) = launches_for n w + 1
       \<and> constructed (snd (getSession_twice n c e1 e2 w)) = constructed w + 1
       \<and> fst (getSession_twice n c e1 e2 w) = (Inr s1, Inr (s1\<lparr>lastActivity := touched_at e2\<rparr>))"
proof (cases rule: getSession_cases[where w=w and n=n and c=c and e=e1])
  case (present s)
  with assms(1) show ?thesis by simp
next
  case full
  with assms(2) show ?thesis by (simp add: getSession_full)
next
  case failed
  with assms(2) show ?thesis by (simp add: getSession_launch_failed)
next
  case created
  note first = getSession_created[OF created]
  obtain w1 where w1: "getSession n c e1 w = (Inr s1, w1)"
    using assms(2) by (cases "getSession n c e1 w") simp
  have live: "map_of (sessions w1) n = Some s1"
    using w1 by (rule getSession_returns_entry)
  have logs: "launched w1 = launched w @
                [\<lparr>for_session = n, on_browser = constructed w,
                  with_headless = nullish (headless c) True,
                  with_viewport = nullish (viewport c) (1280, 720)\<rparr>]"
    "constructed w1 = Suc (constructed w)"
    using first w1 by auto
  show ?thesis
    using w1 logs by (simp add: getSession_twice_def getSession_present[OF live] assign_def launches_for_def)
qed

text \<open>
  The second call started while the launch of the first is in flight, the name being
  new and the registry below the limit: both calls pass the check, so two browsers
  are constructed and launched; each call whose launch succeeds registers its own
  session when its launch settles, so the last of them stays.
\<close>

lemma overlapped_new_name:
  assumes "map_of (sessions w) n = None"
    and "int (length (sessions w)) < nullish (maxConcurrent c) 3"
  shows "launches_for n (snd (getSession_overlapped n c e1 e2 ord w)) = launches_for n w + 2
       \<and> constructed (snd (getSession_overlapped n c e1 e2 ord w)) = constructed w + 2
       \<and> fst (getSession_overlapped n c e1 e2 ord w)
           = (settled (constructed w) e1, settled (Suc (constructed w)) e2)
       \<and> map_of (sessions (snd (getSession_overlapped n c e1 e2 ord w))) n
           = (case ord of
                FirstSettlesFirst \<Rightarrow>
                  if launch_ok e2 then Some (own_session (Suc (constructed w)) e2)
                  else if launch_ok e1 then Some (own_session (constructed w) e1) else None
              | SecondSettlesFirst \<Rightarrow>
                  if launch_ok e1 then Some (own_session (constructed w) e1)
                  else if launch_ok e2 then Some (own_session (Suc (constructed w)) e2) else None)"
proof (cases ord)
  case FirstSettlesFirst
  with assms show ?thesis
    by (simp add: getSession_overlapped_def getSession_enter_def resume_pending_def
                  getSession_resume_def assign_def launches_for_def Let_def
                  settled_def own_session_def map_entry_update_same update_conv')
next
  case SecondSettlesFirst
  with assms show ?thesis
    by (simp add: getSession_overlapped_def getSession_enter_def resume_pending_def
                  getSession_resume_def assign_def launches_for_def Let_def
                  settled_def own_session_def map_entry_update_same update_conv')
qed

text \<open>
  Against C10 as stated: two calls for the same new name that overlap both find the
  name absent, and each constructs and launches its own browser, whichever launch
  settles first.
\<close>

theorem overlapped_resolves_launch_twice:
  "launches_for ''a''
     (snd (getSession_overlapped ''a'' default_config calm calm FirstSettlesFirst fresh_world)) = 2
   \<and> fst (getSession_overlapped ''a'' default_config calm calm FirstSettlesFirst fresh_world)
       = (Inr \<lparr>browser = 0, lastActivity = 1000, recording = False, recordingPath = None\<rparr>,
          Inr \<lparr>browser = 1, lastActivity = 1000, recording = False, recordingPath = None\<rparr>)
   \<and> sessions (snd (getSession_overlapped ''a'' default_config calm calm FirstSettlesFirst fresh_world))
       = [(''a'', \<lparr>browser = 1, lastActivity = 1000, recording = False, recordingPath = None\<rparr>)]
   \<and> launches_for ''a''
     (snd (getSession_overlapped ''a'' default_config calm calm SecondSettlesFirst fresh_world)) = 2
   \<and> fst (getSession_overlapped ''a'' default_config calm calm SecondSettlesFirst fresh_world)
       = (Inr \<lparr>browser = 0, lastActivity = 1000, recording = False, recordingPath = None\<rparr>,
          Inr \<lparr>browser = 1, lastActivity = 1000, recording = False, recordingPath = None\<rparr>)
   \<and> sessions (snd (getSession_overlapped ''a'' default_config calm calm SecondSettlesFirst fresh_world))
       = [(''a'', \<lparr>browser = 0, lastActivity = 1000, recording = False, recordingPath = None\<rparr>)]"
  by code_simp

text \<open>
  C10, as the code has it, for two calls of \<open>getSession\<close> for a name that is not in
  the registry. When the second call starts after the first has returned its
  session, one browser is constructed and launched for the name, and the second call
  returns the session the first created. When the second call starts while the
  launch of the first is in flight and the registry is below the limit, two browsers
  are constructed and launched, whatever the two launches do and whichever settles
  first; each call returns its own session or the failure of its own launch; and the
  registry ends up holding, under the name, the session of the call whose launch was
  the last to succeed, or nothing when both failed.
\<close>

theorem resolves_of_new_name:
  assumes "map_of (sessions w) n = None"
  shows "(fst (getSession n c e1 w) = Inr s1 \<longrightarrow>
            launches_for n (snd (getSession_twice n c e1 e2 w)) = launches_for n w + 1
          \<and> constructed (snd (getSession_twice n c e1 e2 w)) = constructed w + 1
          \<and> fst (getSession_twice n c e1 e2 w)
              = (Inr s1, Inr (s1\<lparr>lastActivity := touched_at e2\<rparr>)))
       \<and> (int (length (sessions w)) < (case maxConcurrent c of None \<Rightarrow> 3 | Some m \<Rightarrow> m) \<longrightarrow>
            launches_for n (snd (getSession_overlapped n c e1 e2 ord w)) = launches_for n w + 2
          \<and> constructed (snd (getSession_overlapped n c e1 e2 ord w)) = constructed w + 2
          \<and> fst (getSession_overlapped n c e1 e2 ord w)
              = (settled (constructed w) e1, settled (Suc (constructed w)) e2)
          \<and> map_of (sessions (snd (getSession_overlapped n c e1 e2 ord w))) n
              = (case ord of
                   FirstSettlesFirst \<Rightarrow>
                     if launch_ok e2 then Some (own_session (Suc (constructed w)) e2)
                     else if launch_ok e1 then Some (own_session (constructed w) e1) else None
                 | SecondSettlesFirst \<Rightarrow>
                     if launch_ok e1 then Some (own_session (constructed w) e1)
                     else if launch_ok e2 then Some (own_session (Suc (constructed w)) e2)
                     else None))"
proof (intro conjI impI)
  assume first: "fst (getSession n c e1 w) = Inr s1"
  note seq = second_resolve_reuses[OF assms first, of e2]
  from seq show "launches_for n (snd (getSession_twice n c e1 e2 w)) = launches_for n w + 1"
    by simp
  from seq show "constructed (snd (getSession_twice n c e1 e2 w)) = constructed w + 1"
    by simp
  from seq show "fst (getSession_twice n c e1 e2 w)
              = (Inr s1, Inr (s1\<lparr>lastActivity := touched_at e2\<rparr>))"
    by simp
next
  assume "int (length (sessions w)) < (case maxConcurrent c of None \<Rightarrow> 3 | Some m \<Rightarrow> m)"
  then have room: "int (length (sessions w)) < nullish (maxConcurrent c) 3"
    by (simp add: nullish_def)
  note both = overlapped_new_name[OF assms room, of e1 e2 ord]
  from both show "launches_for n (snd (getSession_overlapped n c e1 e2 ord w)) = launches_for n w + 2"
    by simp
  from both show "constructed (snd (getSession_overlapped n c e1 e2 ord w)) = constructed w + 2"
    by simp
  from both show "fst (getSession_overlapped n c e1 e2 ord w)
              = (settled (constructed w) e1, settled (Suc (constructed w)) e2)"
    by simp
  from both show "map_of (sessions (snd (getSession_overlapped n c e1 e2 ord w))) n
              = (case ord of
                   FirstSettlesFirst \<Rightarrow>
                     if launch_ok e2 then Some (own_session (Suc (constructed w)) e2)
                     else if launch_ok e1 then Some (own_session (constructed w) e1) else None
                 | SecondSettlesFirst \<Rightarrow>
                     if launch_ok e1 then Some (own_session (constructed w) e1)
                     else if launch_ok e2 then Some (own_session (Suc (constructed w)) e2)
                     else None)"
    by simp
qed

theorem resolves_of_new_name_witness:
  "map_of (sessions fresh_world) ''a'' = None
   \<and> fst (getSession ''a'' default_config calm fresh_world)
       = Inr \<lparr>browser = 0, lastActivity = 1000, recording = False, recordingPath = None\<rparr>
   \<and> launches_for ''a'' (snd (getSession_twice ''a'' default_config calm (later 2000) fresh_world)) = 1
   \<and> fst (getSession_twice ''a'' default_config calm (later 2000) fresh_world)
       = (Inr \<lparr>browser = 0, lastActivity = 1000, recording = False, recordingPath = None\<rparr>,
          Inr \<lparr>browser = 0, lastActivity = 2000, recording = False, recordingPath = None\<rparr>)
   \<and> int (length (sessions fresh_world))
       < (case maxConcurrent default_config of None \<Rightarrow> 3 | Some m \<Rightarrow> m)
   \<and> launches_for ''a''
       (snd (getSession_overlapped ''a'' default_config calm (later 2000) SecondSettlesFirst fresh_world))
       = 2
   \<and> map_of (sessions
       (snd (getSession_overlapped ''a'' default_config calm (later 2000) SecondSettlesFirst fresh_world)))
       ''a''
       = Some \<lparr>browser = 0, lastActivity = 1000, recording = False, recordingPath = None\<rparr>"
proof -
  have new: "map_of (sessions fresh_world) ''a'' = None"
    by code_simp
  have first: "fst (getSession ''a'' default_config calm fresh_world)
       = Inr \<lparr>browser = 0, lastActivity = 1000, recording = False, recordingPath = None\<rparr>"
    by code_simp
  have room: "int (length (sessions fresh_world))
       < (case maxConcurrent default_config of None \<Rightarrow> 3 | Some m \<Rightarrow> m)"
    by code_simp
  have none: "launches_for ''a'' fresh_world = 0"
    by code_simp
  have at: "touched_at (later 2000) = 2000"
    by (simp add: later_def)
  have started: "constructed fresh_world = 0"
    by code_simp
  have ok: "launch_ok calm"
    by code_simp
  have own: "own_session 0 calm
       = \<lparr>browser = 0, lastActivity = 1000, recording = False, recordingPath = None\<rparr>"
    by code_simp
  note fact = resolves_of_new_name[OF new, where c = default_config and ?e1.0 = calm
      and ?e2.0 = "later 2000" and ord = SecondSettlesFirst
      and ?s1.0 = "\<lparr>browser = 0, lastActivity = 1000, recording = False, recordingPath = None\<rparr>"]
  from fact first none at
  have seq: "launches_for ''a'' (snd (getSession_twice ''a'' default_config calm (later 2000) fresh_world)) = 1
     \<and> fst (getSession_twice ''a'' default_config calm (later 2000) fresh_world)
       = (Inr \<lparr>browser = 0, lastActivity = 1000, recording = False, recordingPath = None\<rparr>,
          Inr \<lparr>browser = 0, lastActivity = 2000, recording = False, recordingPath = None\<rparr>)"
    by simp
  from fact room none started ok own
  have ovl: "launches_for ''a''
       (snd (getSession_overlapped ''a'' default_config calm (later 2000) SecondSettlesFirst fresh_world))
       = 2
     \<and> map_of (sessions
       (snd (getSession_overlapped ''a'' default_config calm (later 2000) SecondSettlesFirst fresh_world)))
       ''a''
       = Some \<lparr>browser = 0, lastActivity = 1000, recording = False, recordingPath = None\<rparr>"
    by simp
  from new first room seq ovl show ?thesis by blast
qed

section \<open>A failed GIF conversion\<close>

lemma uploadToR2_outcome:
  assumes "s3Client w' = s3Client w" and "pluginConfig w' = pluginConfig w"
  shows "fst (uploadToR2 lp rn ct e w') = fst (uploadToR2 lp rn ct e w)"
  using assms by (auto simp: uploadToR2_def Let_def split: option.splits if_splits)

lemma record_stop_resolved:
  assumes "map_of (sessions w) (session ps) = Some s" and "recording s"
    and "engine_reply e = Resolved r"
  shows "ab_record_stop ps e w =
    (let w1 = assign (session ps) (\<lambda>s. s\<lparr>lastActivity := touched_at e\<rparr>) w;
         w2 = w1\<lparr>dispatched := dispatched w1 @
                [([(''id'', toString (id_at e)), (''action'', ''recording_stop'')], browser s)]\<rparr>;
         w3 = assign (session ps) (\<lambda>s. s\<lparr>recording := False\<rparr>) w2
     in case gif_step (js_or (data_path r) (recordingPath s)) e w3 of
          ((finalPath, contentType), w4) \<Rightarrow>
            (case uploadToR2 finalPath (or_literal (map_option split_pop finalPath) ''video.webm'')
                    contentType e w4 of
               (Inl err, w5) \<Rightarrow> (Inl err, w5)
             | (Inr remoteUrl, w5) \<Rightarrow>
                 (Inr (StopPayload finalPath remoteUrl (data_frames r)
                         (markdown remoteUrl contentType)), w5)))"
  using assms by (simp add: ab_record_stop_def getSession_present executeCommand_def Let_def)

lemma gif_step_failed:
  assumes "gif (pluginConfig w) = Some True" and "p \<noteq> []" and "\<not> ffmpeg_ok e"
  shows "gif_step (Some p) e w =
           ((Some p, ''video/webm''),
            w\<lparr>converted := converted w @ [(p, replace ''.webm'' ''.gif'' p)],
              console := console w @ [''[agent-browser] GIF conversion failed:'']\<rparr>)"
  using assms by (simp add: gif_step_def convertToGif_def)

text \<open>
  C8, as the code has it. The session is recording, the engine answers the
  \<open>recording_stop\<close> command, GIF conversion is enabled, the final path \<open>p\<close> (the engine's
  \<open>data.path\<close>, or else the session's \<open>recordingPath\<close>) is not empty, and ffmpeg fails.
  Then, whatever the upload does: ffmpeg was run once on \<open>p\<close>, its failure is logged
  and goes no further, and \<open>uploadToR2\<close> is called once, with the original path \<open>p\<close>
  and the content type \<open>video/webm\<close>. What the tool returns is decided by that call
  alone: when it returns (a URL or null) the tool returns a result whose \<open>localPath\<close>
  is \<open>p\<close>, and when it throws the tool fails with what it threw.
\<close>

theorem failed_conversion_keeps_original:
  assumes "map_of (sessions w) (session ps) = Some s" and "recording s"
    and "engine_reply e = Resolved r"
    and "gif (pluginConfig w) = Some True"
    and "js_or (data_path r) (recordingPath s) = Some p" and "p \<noteq> []"
    and "\<not> ffmpeg_ok e"
  shows "uploaded (snd (ab_record_stop ps e w))
            = uploaded w @ [(Some p, or_literal (Some (split_pop p)) ''video.webm'', ''video/webm'')]
       \<and> converted (snd (ab_record_stop ps e w)) = converted w @ [(p, replace ''.webm'' ''.gif'' p)]
       \<and> console (snd (ab_record_stop ps e w))
            = console w @ [''[agent-browser] GIF conversion failed:'']
       \<and> fst (ab_record_stop ps e w) =
           (case fst (uploadToR2 (Some p) (or_literal (Some (split_pop p)) ''video.webm'')
                        ''video/webm'' e w) of
              Inl err \<Rightarrow> Inl err
            | Inr u \<Rightarrow> Inr (StopPayload (Some p) u (data_frames r) (markdown u ''video/webm'')))"
proof -
  let ?w1 = "assign (session ps) (\<lambda>s. s\<lparr>lastActivity := touched_at e\<rparr>) w"
  let ?w2 = "?w1\<lparr>dispatched := dispatched ?w1 @
                [([(''id'', toString (id_at e)), (''action'', ''recording_stop'')], browser s)]\<rparr>"
  let ?w3 = "assign (session ps) (\<lambda>s. s\<lparr>recording := False\<rparr>) ?w2"
  let ?w4 = "?w3\<lparr>converted := converted ?w3 @ [(p, replace ''.webm'' ''.gif'' p)],
              console := console ?w3 @ [''[agent-browser] GIF conversion failed:'']\<rparr>"
  let ?name = "or_literal (Some (split_pop p)) ''video.webm''"
  have cfg: "gif (pluginConfig ?w3) = Some True"
    using assms(4) by (simp add: assign_def)
  have g: "gif_step (Some p) e ?w3 = ((Some p, ''video/webm''), ?w4)"
    by (rule gif_step_failed[OF cfg assms(6,7)])
  obtain x w5 where u: "uploadToR2 (Some p) ?name ''video/webm'' e ?w4 = (x, w5)"
    by (cases "uploadToR2 (Some p) ?name ''video/webm'' e ?w4")
  have same: "fst (uploadToR2 (Some p) ?name ''video/webm'' e w) = x"
    using u uploadToR2_outcome[of ?w4 w "Some p" ?name "''video/webm''" e]
    by (simp add: assign_def)
  have result: "ab_record_stop ps e w =
      ((case x of Inl err \<Rightarrow> Inl err
        | Inr u \<Rightarrow> Inr (StopPayload (Some p) u (data_frames r) (markdown u ''video/webm''))), w5)"
    unfolding record_stop_resolved[OF assms(1,2,3)] Let_def assms(5) g
    by (cases x) (simp_all add: u)
  have logs: "uploaded w5 = uploaded ?w4 @ [(Some p, ?name, ''video/webm'')]"
    "console w5 = console ?w4" "converted w5 = converted ?w4"
    by (rule uploadToR2_frame[OF u])+
  show ?thesis
    using logs by (simp add: result same assign_def)
qed

theorem failed_conversion_keeps_original_witness:
  "map_of (sessions recording_gif_world) (session (on_session ''a''))
     = Some \<lparr>browser = 0, lastActivity = 1000, recording = True,
             recordingPath = Some ''/tmp/agent-browser-plugin/a-demo.webm''\<rparr>
   \<and> engine_reply ffmpeg_failing
       = Resolved \<lparr>success = True, data_path = None, data_frames = Some 100\<rparr>
   \<and> gif (pluginConfig recording_gif_world) = Some True
   \<and> \<not> ffmpeg_ok ffmpeg_failing
   \<and> fst (ab_record_stop (on_session ''a'') ffmpeg_failing recording_gif_world)
       = Inr (StopPayload (Some ''/tmp/agent-browser-plugin/a-demo.webm'')
               (Some ''https://shots.acct.r2.dev/agent-browser/a-demo.webm'') (Some 100)
               (markdown (Some ''https://shots.acct.r2.dev/agent-browser/a-demo.webm'') ''video/webm''))
   \<and> uploaded (snd (ab_record_stop (on_session ''a'') ffmpeg_failing recording_gif_world))
       = [(Some ''/tmp/agent-browser-plugin/a-demo.webm'', ''a-demo.webm'', ''video/webm'')]"
proof -
  let ?s = "\<lparr>browser = 0, lastActivity = 1000, recording = True,
             recordingPath = Some ''/tmp/agent-browser-plugin/a-demo.webm''\<rparr>"
  let ?r = "\<lparr>success = True, data_path = None, data_frames = Some 100\<rparr>"
  let ?p = "''/tmp/agent-browser-plugin/a-demo.webm''"
  have live: "map_of (sessions recording_gif_world) (session (on_session ''a'')) = Some ?s"
    by code_simp
  have rec: "recording ?s"
    by simp
  have reply: "engine_reply ffmpeg_failing = Resolved ?r"
    by code_simp
  have enabled: "gif (pluginConfig recording_gif_world) = Some True"
    by code_simp
  have path: "js_or (data_path ?r) (recordingPath ?s) = Some ?p"
    by code_simp
  have nonempty: "?p \<noteq> []"
    by simp
  have fails: "\<not> ffmpeg_ok ffmpeg_failing"
    by code_simp
  have upload: "fst (uploadToR2 (Some ?p) (or_literal (Some (split_pop ?p)) ''video.webm'')
                      ''video/webm'' ffmpeg_failing recording_gif_world)
                  = Inr (Some ''https://shots.acct.r2.dev/agent-browser/a-demo.webm'')"
    by code_simp
  have name: "or_literal (Some (split_pop ?p)) ''video.webm'' = ''a-demo.webm''"
    by code_simp
  have before: "uploaded recording_gif_world = []"
    by code_simp
  from failed_conversion_keeps_original[OF live rec reply enabled path nonempty fails]
       live reply enabled fails upload name before
  show ?thesis by simp
qed

text \<open>
  Against C8 as stated, where the upload throws: with storage configured and the
  recorded file missing, ffmpeg fails, the failure is logged, and then
  \<open>readFileSync\<close> throws inside \<open>uploadToR2\<close>, which nothing catches.
\<close>

theorem failed_conversion_then_failed_upload:
  "fst (ab_record_stop (on_session ''a'') file_missing recording_gif_world) = Inl ReadFailed
   \<and> converted (snd (ab_record_stop (on_session ''a'') file_missing recording_gif_world))
       = [(''/tmp/agent-browser-plugin/a-demo.webm'', ''/tmp/agent-browser-plugin/a-demo.gif'')]
   \<and> console (snd (ab_record_stop (on_session ''a'') file_missing recording_gif_world))
       = [''[agent-browser] GIF conversion failed:'']
   \<and> uploaded (snd (ab_record_stop (on_session ''a'') file_missing recording_gif_world))
       = [(Some ''/tmp/agent-browser-plugin/a-demo.webm'', ''a-demo.webm'', ''video/webm'')]"
  by code_simp

section \<open>Recording state and recording path\<close>

lemma list_all_map_entry:
  assumes "list_all P xs" and "\<And>v. P (k, v) \<Longrightarrow> P (k, f v)"
  shows "list_all P (AList.map_entry k f xs)"
  using assms by (induction xs) auto

lemma list_all_update:
  assumes "list_all P xs" and "P (k, v)"
  shows "list_all P (AList.update k v xs)"
  using assms by (induction xs) auto

lemma list_all_delete:
  assumes "list_all P xs"
  shows "list_all P (AList.delete k xs)"
  using assms by (simp add: AList.delete_eq list_all_iff)

lemma getSession_keeps_paths:
  assumes "path_when_recording w"
  shows "path_when_recording (snd (getSession n c e w))"
proof (cases rule: getSession_cases[where w=w and n=n and c=c and e=e])
  case (present s)
  with assms show ?thesis
    unfolding path_when_recording_def
    by (auto simp: getSession_present assign_def intro!: list_all_map_entry)
next
  case full
  with assms show ?thesis by (simp add: getSession_full)
next
  case failed
  with assms show ?thesis by (simp add: getSession_launch_failed path_when_recording_def)
next
  case created
  with assms show ?thesis
    by (simp add: getSession_created path_when_recording_def list_all_update)
qed

lemma open_sessions:
  "sessions (snd (ab_open ps e w)) = sessions (snd (getSession (session ps) (pluginConfig w) e w))"
  by (cases "getSession (session ps) (pluginConfig w) e w")
     (auto simp: ab_open_def executeCommand_def split: sum.splits reply.splits)

lemma record_start_sessions:
  "sessions (snd (ab_record_start ps e w)) = sessions (snd (getSession (session ps) (pluginConfig w) e w))
   \<or> (\<exists>lp. sessions (snd (ab_record_start ps e w)) =
         AList.map_entry (session ps) (\<lambda>s. s\<lparr>recording := True, recordingPath := Some lp\<rparr>)
           (sessions (snd (getSession (session ps) (pluginConfig w) e w))))"
  by (cases "getSession (session ps) (pluginConfig w) e w")
     (auto simp: ab_record_start_def executeCommand_def assign_def Let_def
           split: sum.splits reply.splits)

lemma record_stop_sessions:
  "sessions (snd (ab_record_stop ps e w)) = sessions (snd (getSession (session ps) (pluginConfig w) e w))
   \<or> sessions (snd (ab_record_stop ps e w)) =
         AList.map_entry (session ps) (\<lambda>s. s\<lparr>recording := False\<rparr>)
           (sessions (snd (getSession (session ps) (pluginConfig w) e w)))"
proof (cases "getSession (session ps) (pluginConfig w) e w")
  case (Pair res w1)
  show ?thesis
  proof (cases res)
    case (Inl err)
    with Pair show ?thesis by (simp add: ab_record_stop_def)
  next
    case (Inr s)
    show ?thesis
    proof (cases "recording s \<and> engine_reply e \<noteq> Rejected")
      case False
      with Pair Inr show ?thesis
        by (auto simp: ab_record_stop_def executeCommand_def split: reply.splits)
    next
      case True
      then obtain r where r: "engine_reply e = Resolved r" by (cases "engine_reply e") auto
      let ?w2 = "w1\<lparr>dispatched := dispatched w1 @
                [([(''id'', toString (id_at e)), (''action'', ''recording_stop'')], browser s)]\<rparr>"
      let ?w3 = "assign (session ps) (\<lambda>s. s\<lparr>recording := False\<rparr>) ?w2"
      obtain fp ct w4 where g: "gif_step (js_or (data_path r) (recordingPath s)) e ?w3 = ((fp, ct), w4)"
        by (metis surj_pair)
      obtain x w5 where u: "uploadToR2 fp (or_literal (map_option split_pop fp) ''video.webm'') ct e w4 = (x, w5)"
        by (metis surj_pair)
      have "sessions w5 = sessions ?w3"
        using gif_step_frame(1)[OF g] uploadToR2_frame(1)[OF u] by simp
      moreover have "snd (ab_record_stop ps e w) = w5"
        using Pair Inr True r g u
        by (cases x) (simp_all add: ab_record_stop_def executeCommand_def Let_def)
      ultimately show ?thesis using Pair by (simp add: assign_def)
    qed
  qed
qed

lemma close_sessions:
  "sessions (snd (ab_close ps e w)) = sessions w
   \<or> sessions (snd (ab_close ps e w)) = AList.delete (session ps) (sessions w)"
  by (auto simp: ab_close_def close_with_def executeCommand_def split: option.splits reply.splits)

lemma step_keeps_paths:
  assumes "path_when_recording w"
  shows "path_when_recording (step ope e w)"
proof (cases ope)
  case (Open ps)
  with getSession_keeps_paths[OF assms] show ?thesis
    by (simp add: path_when_recording_def open_sessions)
next
  case (RecordStart ps)
  from getSession_keeps_paths[OF assms, of "session ps" "pluginConfig w" e]
  have "list_all (\<lambda>entry. recording (snd entry) \<longrightarrow> recordingPath (snd entry) \<noteq> None)
          (sessions (snd (getSession (session ps) (pluginConfig w) e w)))"
    by (simp add: path_when_recording_def)
  with record_start_sessions[of ps e w] RecordStart show ?thesis
    by (auto simp: path_when_recording_def intro!: list_all_map_entry)
next
  case (RecordStop ps)
  from getSession_keeps_paths[OF assms, of "session ps" "pluginConfig w" e]
  have "list_all (\<lambda>entry. recording (snd entry) \<longrightarrow> recordingPath (snd entry) \<noteq> None)
          (sessions (snd (getSession (session ps) (pluginConfig w) e w)))"
    by (simp add: path_when_recording_def)
  with record_stop_sessions[of ps e w] RecordStop show ?thesis
    by (auto simp: path_when_recording_def intro!: list_all_map_entry)
next
  case (Close ps)
  with close_sessions[of ps e w] assms show ?thesis
    by (auto simp: path_when_recording_def intro!: list_all_delete)
next
  case (Tick now)
  with assms show ?thesis
    by (simp add: path_when_recording_def reaper_tick_def reap_loop_sessions list_all_iff)
next
  case ServiceStart
  with assms show ?thesis by (simp add: path_when_recording_def service_start_def)
next
  case ServiceStop
  then show ?thesis by (simp add: path_when_recording_def service_stop_def)
qed

lemma run_keeps_paths:
  assumes "path_when_recording w"
  shows "path_when_recording (run ops w)"
  using assms
proof (induction ops arbitrary: w)
  case Nil
  then show ?case by simp
next
  case (Cons x ops)
  obtain ope e where x: "x = (ope, e)" by (cases x)
  from Cons.prems have "path_when_recording (step ope e w)" by (rule step_keeps_paths)
  then show ?case unfolding x run.simps by (rule Cons.IH)
qed

lemma record_stop_entry:
  assumes "map_of (sessions w) (session ps) = Some s" and "recording s"
    and "engine_reply e = Resolved r"
  shows "map_of (sessions (snd (ab_record_stop ps e w))) (session ps)
           = Some (s\<lparr>lastActivity := touched_at e, recording := False\<rparr>)"
proof -
  let ?w1 = "assign (session ps) (\<lambda>s. s\<lparr>lastActivity := touched_at e\<rparr>) w"
  let ?w2 = "?w1\<lparr>dispatched := dispatched ?w1 @
                [([(''id'', toString (id_at e)), (''action'', ''recording_stop'')], browser s)]\<rparr>"
  let ?w3 = "assign (session ps) (\<lambda>s. s\<lparr>recording := False\<rparr>) ?w2"
  obtain fp ct w4 where g: "gif_step (js_or (data_path r) (recordingPath s)) e ?w3 = ((fp, ct), w4)"
    by (metis surj_pair)
  obtain x w5 where u: "uploadToR2 fp (or_literal (map_option split_pop fp) ''video.webm'') ct e w4 = (x, w5)"
    by (metis surj_pair)
  have "sessions w5 = sessions ?w3"
    using gif_step_frame(1)[OF g] uploadToR2_frame(1)[OF u] by simp
  moreover have "snd (ab_record_stop ps e w) = w5"
    unfolding record_stop_resolved[OF assms] Let_def g using u by (cases x) simp_all
  ultimately show ?thesis
    using assms(1) by (simp add: assign_def map_of_map_entry)
qed

text \<open>
  C5, as the code has it. In every world reached from the initial one by the
  operations modelled here (\<open>ab_open\<close>, \<open>ab_record_start\<close>, \<open>ab_record_stop\<close>,
  \<open>ab_close\<close>, a reaper tick, the service's \<open>start\<close> and \<open>stop\<close>; the remaining tools
  touch the registry through \<open>getSession\<close> only, as \<open>ab_open\<close> does), a session that
  is recording has a recording path. And a record-stop that returns its result
  leaves the session with \<open>recording = false\<close> and with the \<open>recordingPath\<close> it had:
  the path is not cleared.
\<close>

theorem recording_implies_path:
  "path_when_recording (run ops (initial config s3 tmp))
   \<and> (map_of (sessions w) (session ps) = Some s
        \<and> fst (ab_record_stop ps e w) = Inr (StopPayload localPath remoteUrl frames md)
      \<longrightarrow> map_of (sessions (snd (ab_record_stop ps e w))) (session ps)
            = Some (s\<lparr>lastActivity := touched_at e, recording := False\<rparr>))"
proof (intro conjI impI)
  have "path_when_recording (initial config s3 tmp)"
    by (simp add: path_when_recording_def initial_def)
  then show "path_when_recording (run ops (initial config s3 tmp))"
    by (rule run_keeps_paths)
next
  assume h: "map_of (sessions w) (session ps) = Some s
        \<and> fst (ab_record_stop ps e w) = Inr (StopPayload localPath remoteUrl frames md)"
  then have live: "map_of (sessions w) (session ps) = Some s"
    and ok: "fst (ab_record_stop ps e w) = Inr (StopPayload localPath remoteUrl frames md)"
    by simp_all
  have rec: "recording s"
  proof (rule ccontr)
    assume "\<not> recording s"
    from record_stop_when_idle[OF live this, of e] ok show False by simp
  qed
  obtain r where r: "engine_reply e = Resolved r"
  proof (cases "engine_reply e")
    case Rejected
    have "fst (ab_record_stop ps e w) = Inl CommandRejected"
      using live rec Rejected
      by (simp add: ab_record_stop_def getSession_present executeCommand_def)
    with ok show ?thesis by simp
  next
    case (Resolved r)
    then show ?thesis by (rule that)
  qed
  from live rec r show "map_of (sessions (snd (ab_record_stop ps e w))) (session ps)
            = Some (s\<lparr>lastActivity := touched_at e, recording := False\<rparr>)"
    by (rule record_stop_entry)
qed

theorem recording_implies_path_witness:
  "path_when_recording
     (run [(RecordStart (on_session ''a''), calm)]
        (initial default_config False ''/tmp/agent-browser-plugin''))
   \<and> map_of (sessions recording_world) (session (on_session ''a''))
       = Some \<lparr>browser = 0, lastActivity = 1000, recording = True,
               recordingPath = Some ''/tmp/agent-browser-plugin/a-demo.webm''\<rparr>
   \<and> fst (ab_record_stop (on_session ''a'') (later 2000) recording_world)
       = Inr (StopPayload (Some ''/tmp/agent-browser-plugin/a-demo.webm'') None (Some 100) None)
   \<and> map_of (sessions (snd (ab_record_stop (on_session ''a'') (later 2000) recording_world)))
         (session (on_session ''a''))
       = Some \<lparr>browser = 0, lastActivity = 2000, recording = False,
               recordingPath = Some ''/tmp/agent-browser-plugin/a-demo.webm''\<rparr>"
proof -
  let ?s = "\<lparr>browser = 0, lastActivity = 1000, recording = True,
             recordingPath = Some ''/tmp/agent-browser-plugin/a-demo.webm''\<rparr>"
  have live: "map_of (sessions recording_world) (session (on_session ''a'')) = Some ?s"
    by code_simp
  have stopped: "fst (ab_record_stop (on_session ''a'') (later 2000) recording_world)
       = Inr (StopPayload (Some ''/tmp/agent-browser-plugin/a-demo.webm'') None (Some 100) None)"
    by code_simp
  have at: "touched_at (later 2000) = 2000"
    by (simp add: later_def)
  note fact = recording_implies_path[where ops = "[(RecordStart (on_session ''a''), calm)]"
      and config = default_config and ?s3.0 = False and tmp = "''/tmp/agent-browser-plugin''"
      and w = recording_world and ps = "on_session ''a''" and s = ?s and e = "later 2000"
      and localPath = "Some ''/tmp/agent-browser-plugin/a-demo.webm''" and remoteUrl = None
      and frames = "Some 100" and md = None]
  from fact have inv: "path_when_recording
     (run [(RecordStart (on_session ''a''), calm)]
        (initial default_config False ''/tmp/agent-browser-plugin''))"
    by (rule conjunct1)
  from fact live stopped at
  have entry: "map_of (sessions (snd (ab_record_stop (on_session ''a'') (later 2000) recording_world)))
         (session (on_session ''a''))
       = Some \<lparr>browser = 0, lastActivity = 2000, recording = False,
               recordingPath = Some ''/tmp/agent-browser-plugin/a-demo.webm''\<rparr>"
    by simp
  from inv live stopped entry show ?thesis by blast
qed

text \<open>
  Against C5 as stated: after a record-stop that returned its result the session is
  not recording and still has its recording path.
\<close>

theorem path_outlives_recording:
  "fst (ab_record_stop (on_session ''a'') calm recording_world)
     = Inr (StopPayload (Some ''/tmp/agent-browser-plugin/a-demo.webm'') None (Some 100) None)
   \<and> sessions (snd (ab_record_stop (on_session ''a'') calm recording_world))
     = [(''a'', \<lparr>browser = 0, lastActivity = 1000, recording = False,
                 recordingPath = Some ''/tmp/agent-browser-plugin/a-demo.webm''\<rparr>)]"
  by code_simp

section \<open>Registries that can arise\<close>

text \<open>
  The keys of the registry are distinct in every world reached from the initial one,
  as the keys of the \<open>Map\<close> are.
\<close>

lemma getSession_keeps_distinct:
  assumes "distinct (map fst (sessions w))"
  shows "distinct (map fst (sessions (snd (getSession n c e w))))"
proof (cases rule: getSession_cases[where w=w and n=n and c=c and e=e])
  case (present s)
  with assms show ?thesis
    by (simp add: getSession_present assign_def distinct_map_entry)
next
  case full
  with assms show ?thesis by (simp add: getSession_full)
next
  case failed
  with assms show ?thesis by (simp add: getSession_launch_failed)
next
  case created
  with assms show ?thesis by (simp add: getSession_created distinct_update)
qed

lemma step_keeps_distinct:
  assumes "distinct (map fst (sessions w))"
  shows "distinct (map fst (sessions (step ope e w)))"
proof (cases ope)
  case (Open ps)
  with getSession_keeps_distinct[OF assms] show ?thesis
    by (simp add: open_sessions)
next
  case (RecordStart ps)
  with record_start_sessions[of ps e w]
       getSession_keeps_distinct[OF assms, of "session ps" "pluginConfig w" e]
  show ?thesis by (auto simp: distinct_map_entry)
next
  case (RecordStop ps)
  with record_stop_sessions[of ps e w]
       getSession_keeps_distinct[OF assms, of "session ps" "pluginConfig w" e]
  show ?thesis by (auto simp: distinct_map_entry)
next
  case (Close ps)
  with close_sessions[of ps e w] assms show ?thesis
    by (auto simp: distinct_delete)
next
  case (Tick now)
  with assms show ?thesis
    by (simp add: reaper_tick_def reap_loop_sessions distinct_map_filter)
next
  case ServiceStart
  with assms show ?thesis by (simp add: service_start_def)
next
  case ServiceStop
  then show ?thesis by (simp add: service_stop_def)
qed

lemma reachable_keys_distinct:
  "distinct (map fst (sessions (run ops (initial config s3 tmp))))"
proof -
  have "distinct (map fst (sessions w)) \<Longrightarrow> distinct (map fst (sessions (run ops w)))" for w
  proof (induction ops arbitrary: w)
    case Nil
    then show ?case by simp
  next
    case (Cons x ops)
    obtain ope e where x: "x = (ope, e)" by (cases x)
    from Cons.prems have "distinct (map fst (sessions (step ope e w)))"
      by (rule step_keeps_distinct)
    then show ?case unfolding x run.simps by (rule Cons.IH)
  qed
  then show ?thesis by (simp add: initial_def)
qed

text \<open>
  No operation changes the configuration, and a registry that is not empty holds no
  more sessions than the limit allows: a session is only added by \<open>getSession\<close>, below
  the limit.
\<close>

lemma length_map_entry:
  "length (AList.map_entry k f xs) = length xs"
  by (induction xs) auto

lemma length_update_absent:
  assumes "map_of xs k = None"
  shows "length (AList.update k v xs) = Suc (length xs)"
  using assms by (induction xs) (auto split: if_splits)

lemma open_config:
  "pluginConfig (snd (ab_open ps e w)) = pluginConfig w"
  using getSession_frame(3)[of "session ps" "pluginConfig w" e w]
  by (cases "getSession (session ps) (pluginConfig w) e w")
     (auto simp: ab_open_def executeCommand_def split: sum.splits reply.splits)

lemma record_start_config:
  "pluginConfig (snd (ab_record_start ps e w)) = pluginConfig w"
  using getSession_frame(3)[of "session ps" "pluginConfig w" e w]
  by (cases "getSession (session ps) (pluginConfig w) e w")
     (auto simp: ab_record_start_def executeCommand_def assign_def Let_def
           split: sum.splits reply.splits)

lemma record_stop_config:
  "pluginConfig (snd (ab_record_stop ps e w)) = pluginConfig w"
proof (cases "getSession (session ps) (pluginConfig w) e w")
  case (Pair res w1)
  have c1: "pluginConfig w1 = pluginConfig w"
    using getSession_frame(3)[of "session ps" "pluginConfig w" e w] Pair by simp
  show ?thesis
  proof (cases res)
    case (Inl err)
    with Pair c1 show ?thesis by (simp add: ab_record_stop_def)
  next
    case (Inr s)
    show ?thesis
    proof (cases "recording s \<and> engine_reply e \<noteq> Rejected")
      case False
      with Pair Inr c1 show ?thesis
        by (auto simp: ab_record_stop_def executeCommand_def split: reply.splits)
    next
      case True
      then obtain r where r: "engine_reply e = Resolved r" by (cases "engine_reply e") auto
      let ?w2 = "w1\<lparr>dispatched := dispatched w1 @
                [([(''id'', toString (id_at e)), (''action'', ''recording_stop'')], browser s)]\<rparr>"
      let ?w3 = "assign (session ps) (\<lambda>s. s\<lparr>recording := False\<rparr>) ?w2"
      obtain fp ct w4 where g: "gif_step (js_or (data_path r) (recordingPath s)) e ?w3 = ((fp, ct), w4)"
        by (metis surj_pair)
      obtain x w5 where u: "uploadToR2 fp (or_literal (map_option split_pop fp) ''video.webm'') ct e w4 = (x, w5)"
        by (metis surj_pair)
      have "pluginConfig w5 = pluginConfig ?w3"
        using gif_step_frame(3)[OF g] uploadToR2_frame(8)[OF u] by simp
      moreover have "snd (ab_record_stop ps e w) = w5"
        using Pair Inr True r g u
        by (cases x) (simp_all add: ab_record_stop_def executeCommand_def Let_def)
      ultimately show ?thesis using c1 by (simp add: assign_def)
    qed
  qed
qed

lemma close_config:
  "pluginConfig (snd (ab_close ps e w)) = pluginConfig w"
  by (auto simp: ab_close_def close_with_def executeCommand_def split: option.splits reply.splits)

lemma step_config:
  "pluginConfig (step ope e w) = pluginConfig w"
  by (cases ope)
     (simp_all add: open_config record_start_config record_stop_config close_config
                    reaper_tick_def reap_loop_frame service_start_def service_stop_def
                    stop_loop_config)

lemma getSession_within_limit:
  assumes "sessions w = [] \<or> int (length (sessions w)) \<le> nullish (maxConcurrent (pluginConfig w)) 3"
  shows "sessions (snd (getSession n (pluginConfig w) e w)) = []
       \<or> int (length (sessions (snd (getSession n (pluginConfig w) e w))))
            \<le> nullish (maxConcurrent (pluginConfig w)) 3"
proof (cases rule: getSession_cases[where w=w and n=n and c="pluginConfig w" and e=e])
  case (present s)
  with assms show ?thesis
    by (auto simp: getSession_present assign_def length_map_entry)
next
  case full
  with assms show ?thesis by (simp add: getSession_full)
next
  case failed
  with assms show ?thesis by (simp add: getSession_launch_failed)
next
  case created
  then show ?thesis
    by (simp add: getSession_created length_update_absent)
qed

lemma step_within_limit:
  assumes "sessions w = [] \<or> int (length (sessions w)) \<le> nullish (maxConcurrent (pluginConfig w)) 3"
  shows "sessions (step ope e w) = []
       \<or> int (length (sessions (step ope e w))) \<le> nullish (maxConcurrent (pluginConfig w)) 3"
proof (cases ope)
  case (Open ps)
  with getSession_within_limit[OF assms, of "session ps" e] show ?thesis
    by (simp add: open_sessions)
next
  case (RecordStart ps)
  with record_start_sessions[of ps e w] getSession_within_limit[OF assms, of "session ps" e]
  show ?thesis by (auto simp: length_map_entry)
next
  case (RecordStop ps)
  with record_stop_sessions[of ps e w] getSession_within_limit[OF assms, of "session ps" e]
  show ?thesis by (auto simp: length_map_entry)
next
  case (Close ps)
  have "length (AList.delete (session ps) (sessions w)) \<le> length (sessions w)"
    by (rule length_delete_le)
  with close_sessions[of ps e w] assms Close show ?thesis
    by auto
next
  case (Tick now)
  have "length (filter P (sessions w)) \<le> length (sessions w)" for P
    by (rule length_filter_le)
  with assms Tick show ?thesis
    by (auto simp: reaper_tick_def reap_loop_sessions intro: order_trans[rotated])
next
  case ServiceStart
  with assms show ?thesis by (simp add: service_start_def)
next
  case ServiceStop
  then show ?thesis by (simp add: service_stop_def)
qed

lemma reachable_within_limit:
  "sessions (run ops (initial config s3 tmp)) = []
   \<or> int (length (sessions (run ops (initial config s3 tmp))))
        \<le> (case maxConcurrent (pluginConfig (run ops (initial config s3 tmp))) of
              None \<Rightarrow> 3 | Some m \<Rightarrow> m)"
proof -
  have "sessions w = [] \<or> int (length (sessions w)) \<le> nullish (maxConcurrent (pluginConfig w)) 3
        \<Longrightarrow> pluginConfig (run ops w) = pluginConfig w
          \<and> (sessions (run ops w) = []
              \<or> int (length (sessions (run ops w))) \<le> nullish (maxConcurrent (pluginConfig w)) 3)" for w
  proof (induction ops arbitrary: w)
    case Nil
    then show ?case by simp
  next
    case (Cons x ops)
    obtain ope e where x: "x = (ope, e)" by (cases x)
    have cfg: "pluginConfig (step ope e w) = pluginConfig w"
      by (rule step_config)
    from step_within_limit[OF Cons.prems, of ope e]
    have "sessions (step ope e w) = []
          \<or> int (length (sessions (step ope e w)))
               \<le> nullish (maxConcurrent (pluginConfig (step ope e w))) 3"
      by (simp add: cfg)
    from Cons.IH[OF this] show ?case by (simp add: x cfg)
  qed
  from this[of "initial config s3 tmp"] show ?thesis
    by (simp add: initial_def nullish_def)
qed

end
